theory Spec2Isabelle
  imports Main
begin

section \<open>Solr query translator: \<open>mediawords/solr/query.py\<close>\<close>

text \<open>
  A shallow embedding of the query parser (\<open>parse\<close>, \<open>__get_tokens\<close>, \<open>__parse_tokens\<close>),
  the tree filter (\<open>filter_tree\<close>) and the two emitters (\<open>tsquery\<close>, \<open>re\<close>).
  Python exceptions are values of \<open>error\<close>; a function that may raise returns
  \<open>error + 'a\<close> with \<open>Inl\<close> for the exception. Python's \<open>None\<close> is \<open>None\<close> of an option type.
\<close>

subsection \<open>Exceptions\<close>

datatype error =
    ParseSyntaxError string
  | ValueError string
  | AttributeError string
  | IndexError string
  | TokenError string

fun is_syntax_error :: "error + 'a \<Rightarrow> bool" where
  "is_syntax_error (Inl (ParseSyntaxError m)) = True"
| "is_syntax_error r = False"

subsection \<open>Characters and strings\<close>

text \<open>
  A string is a list of code points below 256 (the Latin-1 range of Unicode), which is what a
  \<open>char\<close> holds. The character classes are those of Python's \<open>re\<close> and \<open>str\<close> on \<open>str\<close>
  values, which follow Unicode, restricted to that range: \<open>\w\<close> matches the ASCII letters,
  digits and the underscore, and also the letters and numeric characters between 170 and 255;
  \<open>\s\<close> matches the six ASCII blanks, the four separators 28 to 31, and 133 and 160;
  \<open>str.lower\<close> changes \<open>A\<close> to \<open>Z\<close> and the capital letters between 192 and 222 (215 is the
  multiplication sign), each to the code point 32 above it.
\<close>

definition is_upper :: "char \<Rightarrow> bool" where
  "is_upper c =
     (let n = (of_char c :: nat)
      in (65 \<le> n \<and> n \<le> 90) \<or> (192 \<le> n \<and> n \<le> 214) \<or> (216 \<le> n \<and> n \<le> 222))"

definition word_char :: "char \<Rightarrow> bool" where
  "word_char c =
     (let n = (of_char c :: nat)
      in (48 \<le> n \<and> n \<le> 57) \<or> (65 \<le> n \<and> n \<le> 90) \<or> n = 95 \<or> (97 \<le> n \<and> n \<le> 122)
         \<or> n = 170 \<or> n = 178 \<or> n = 179 \<or> n = 181 \<or> n = 185 \<or> n = 186
         \<or> (188 \<le> n \<and> n \<le> 190) \<or> (192 \<le> n \<and> n \<le> 214) \<or> (216 \<le> n \<and> n \<le> 246)
         \<or> (248 \<le> n \<and> n \<le> 255))"

definition space_char :: "char \<Rightarrow> bool" where
  "space_char c =
     (let n = (of_char c :: nat)
      in (9 \<le> n \<and> n \<le> 13) \<or> (28 \<le> n \<and> n \<le> 32) \<or> n = 133 \<or> n = 160)"

definition lower_char :: "char \<Rightarrow> char" where
  "lower_char c = (if is_upper c then char_of ((of_char c :: nat) + 32) else c)"

definition lower :: "string \<Rightarrow> string" where
  "lower s = map lower_char s"

fun startswith :: "string \<Rightarrow> string \<Rightarrow> bool" where
  "startswith s [] = True"
| "startswith [] (p # ps) = False"
| "startswith (c # cs) (p # ps) = (c = p \<and> startswith cs ps)"

definition endswith :: "string \<Rightarrow> string \<Rightarrow> bool" where
  "endswith s p = startswith (rev s) (rev p)"

text \<open>\<open>p in s\<close> for strings.\<close>

fun contains :: "string \<Rightarrow> string \<Rightarrow> bool" where
  "contains [] p = (p = [])"
| "contains (c # cs) p = (startswith (c # cs) p \<or> contains cs p)"

text \<open>
  \<open>s.replace(p, r)\<close> and \<open>re.sub(p, r, s)\<close> for a literal, non-empty pattern \<open>p\<close>: every
  occurrence, found from left to right and not overlapping, is replaced. The counter is the
  number of characters of a matched occurrence still to be skipped.
\<close>

fun replace_from :: "nat \<Rightarrow> string \<Rightarrow> string \<Rightarrow> string \<Rightarrow> string" where
  "replace_from k p r [] = []"
| "replace_from (Suc k) p r (c # cs) = replace_from k p r cs"
| "replace_from 0 p r (c # cs) =
     (if startswith (c # cs) p then r @ replace_from (length p - 1) p r cs
      else c # replace_from 0 p r cs)"

definition replace :: "string \<Rightarrow> string \<Rightarrow> string \<Rightarrow> string" where
  "replace s p r = replace_from 0 p r s"

text \<open>\<open>sep.join(xs)\<close>.\<close>

fun join :: "string \<Rightarrow> string list \<Rightarrow> string" where
  "join sep [] = []"
| "join sep [x] = x"
| "join sep (x # y # ys) = x @ sep @ join sep (y # ys)"

subsection \<open>Tokens\<close>

datatype token_type =
    T_OPEN | T_CLOSE | T_PHRASE | T_AND | T_OR | T_NOT | T_FIELD | T_TERM | T_PLUS | T_MINUS
  | T_NOOP

definition NOOP_PLACEHOLDER :: string where
  "NOOP_PLACEHOLDER = ''__NOOP__''"

definition FIELD_PLACEHOLDER :: string where
  "FIELD_PLACEHOLDER = ''__FIELD__''"

definition WILD_PLACEHOLDER :: string where
  "WILD_PLACEHOLDER = ''__WILD__''"

datatype token = Token (token_value: string) (token_type: token_type)

subsection \<open>The lexer: \<open>__get_tokens\<close>\<close>

text \<open>
  \<open>re.sub('\w+:\[[^\]]*\]', NOOP_PLACEHOLDER, query)\<close>. A match starts at the first character of
  a run of word characters (the run is taken whole, since \<open>:\<close> is not a word character), needs
  \<open>:[\<close> right after the run and the first \<open>]\<close> after that; \<open>range_tail\<close> returns what follows
  the match.
\<close>

fun after_bracket :: "string \<Rightarrow> string option" where
  "after_bracket [] = None"
| "after_bracket (c # cs) = (if c = CHR '']'' then Some cs else after_bracket cs)"

fun range_tail :: "string \<Rightarrow> string option" where
  "range_tail (a # b # cs) =
     (if a = CHR '':'' \<and> b = CHR ''['' then after_bracket cs else None)"
| "range_tail cs = None"

lemma after_bracket_length: "after_bracket cs = Some r \<Longrightarrow> length r < length cs"
  by (induction cs) (auto split: if_splits)

lemma range_tail_length: "range_tail cs = Some r \<Longrightarrow> length r < length cs"
  by (cases cs rule: range_tail.cases) (auto split: if_splits dest: after_bracket_length)

function sub_ranges :: "string \<Rightarrow> string" where
  "sub_ranges [] = []"
| "sub_ranges (c # cs) =
     (if word_char c then
        (case range_tail (dropWhile word_char cs) of
           Some r \<Rightarrow> NOOP_PLACEHOLDER @ sub_ranges r
         | None \<Rightarrow> (c # takeWhile word_char cs) @ sub_ranges (dropWhile word_char cs))
      else c # sub_ranges cs)"
  by pat_completeness auto
termination
proof (relation "measure length")
  show "wf (measure length)" by simp
next
  fix c cs r
  assume "range_tail (dropWhile word_char cs) = Some r"
  then have "length r < length (dropWhile word_char cs)" by (rule range_tail_length)
  also have "\<dots> \<le> length cs" by (rule length_dropWhile_le)
  finally show "(r, c # cs) \<in> measure length" by simp
next
  fix c :: char and cs :: string
  have "length (dropWhile word_char cs) \<le> length cs" by (rule length_dropWhile_le)
  then show "(dropWhile word_char cs, c # cs) \<in> measure length" by simp
next
  fix c :: char and cs :: string
  show "(cs, c # cs) \<in> measure length" by simp
qed

text \<open>The normalisation steps of \<open>__get_tokens\<close>, in the order of the source.\<close>

definition normalize_query :: "string \<Rightarrow> string" where
  "normalize_query query =
     (let q1 = lower query;
          q2 = replace q1 ''!'' ''-'';
          q3 = replace q2 [CHR 0x0A] '' '';
          q4 = replace q3 [CHR 0x0D] '' '';
          q5 = sub_ranges q4;
          q6 = replace q5 '':'' (FIELD_PLACEHOLDER @ '' '');
          q7 = replace q6 ''*'' WILD_PLACEHOLDER
      in q7)"

text \<open>
  Modelled from the spec: the word/punctuation tokenizer of section 4.1 of the specification
  (the source calls \<open>tokenize.generate_tokens\<close> of the Python standard library, which is not in
  the repository). Blanks separate lexemes; a run of word characters (placeholders included) is
  one lexeme; a quoted span is one lexeme that keeps its quotes; every other character is a
  lexeme of its own. As the library tokenizer does, it counts bracket depth and ends with the
  exception \<open>TokenError\<close> when the depth is not zero at the end of the input; the exception is
  raised only after every lexeme has been produced, so it is returned beside the lexemes.
  A quote that is never closed is a lexeme of one character, as in the library.
  Not modelled: string prefixes, backslash escapes and triple quotes, numeric literals (a run
  of word characters that starts with a digit is kept whole), operators of several characters,
  comments, and the blank that the library returns as a lexeme of its own when the character
  after it starts no lexeme.
\<close>

definition blank_char :: "char \<Rightarrow> bool" where
  "blank_char c = (c = CHR '' '' \<or> c = CHR 0x09 \<or> c = CHR 0x0C)"

definition quote_char :: "char \<Rightarrow> bool" where
  "quote_char c = (c = CHR 0x22 \<or> c = CHR 0x27)"

definition bracket_delta :: "char \<Rightarrow> int" where
  "bracket_delta c =
     (if c = CHR ''('' \<or> c = CHR ''['' \<or> c = CHR ''{'' then 1
      else if c = CHR '')'' \<or> c = CHR '']'' \<or> c = CHR ''}'' then - 1
      else 0)"

fun closing_quote :: "char \<Rightarrow> string \<Rightarrow> (string \<times> string) option" where
  "closing_quote q [] = None"
| "closing_quote q (c # cs) =
     (if c = q then Some ([], cs)
      else (case closing_quote q cs of
              None \<Rightarrow> None
            | Some (body, rest) \<Rightarrow> Some (c # body, rest)))"

function scan_tokens :: "int \<Rightarrow> string \<Rightarrow> string list \<times> error option" where
  "scan_tokens lev [] =
     ([], if lev \<noteq> 0 then Some (TokenError ''EOF in multi-line statement'') else None)"
| "scan_tokens lev (c # cs) =
     (if blank_char c then scan_tokens lev cs
      else if word_char c then
        (let (ts, e) = scan_tokens lev (dropWhile word_char cs)
         in ((c # takeWhile word_char cs) # ts, e))
      else if quote_char c then
        (case closing_quote c cs of
           Some (body, rest) \<Rightarrow>
             (let (ts, e) = scan_tokens lev rest in ((c # body @ [c]) # ts, e))
         | None \<Rightarrow> (let (ts, e) = scan_tokens lev cs in ([c] # ts, e)))
      else (let (ts, e) = scan_tokens (lev + bracket_delta c) cs in ([c] # ts, e)))"
  by pat_completeness auto
termination
proof (relation "measure (\<lambda>(lev, s). length s)")
  show "wf (measure (\<lambda>(lev :: int, s :: string). length s))" by simp
next
  fix lev :: int and c :: char and cs :: string
  show "((lev, cs), lev, c # cs) \<in> measure (\<lambda>(lev, s). length s)" by simp
next
  fix lev :: int and c :: char and cs :: string
  have "length (dropWhile word_char cs) \<le> length cs" by (rule length_dropWhile_le)
  then show "((lev, dropWhile word_char cs), lev, c # cs) \<in> measure (\<lambda>(lev, s). length s)"
    by simp
next
  fix lev :: int and c :: char and cs :: string and x2 x y
  assume "closing_quote c cs = Some x2" and "(x, y) = x2"
  then have cq: "closing_quote c cs = Some (x, y)" by simp
  have "closing_quote q s = Some (b, r) \<Longrightarrow> length r < Suc (length s)" for q s b r
    by (induction s arbitrary: b) (auto split: if_splits option.splits)
  from this [OF cq] show "((lev, y), lev, c # cs) \<in> measure (\<lambda>(lev, s). length s)" by simp
next
  fix lev :: int and c :: char and cs :: string
  show "((lev, cs), lev, c # cs) \<in> measure (\<lambda>(lev, s). length s)" by simp
next
  fix lev :: int and c :: char and cs :: string
  show "((lev + bracket_delta c, cs), lev, c # cs) \<in> measure (\<lambda>(lev, s). length s)" by simp
qed

definition generate_tokens :: "string \<Rightarrow> string list \<times> error option" where
  "generate_tokens query = scan_tokens 0 query"

text \<open>\<open>re.match('^\w+$', token)\<close> and \<open>re.match(r'^\w+' + WILD_PLACEHOLDER + '$', token)\<close>.\<close>

definition is_word :: "string \<Rightarrow> bool" where
  "is_word s = (s \<noteq> [] \<and> list_all word_char s)"

definition is_wild_term :: "string \<Rightarrow> bool" where
  "is_wild_term s =
     (endswith s WILD_PLACEHOLDER \<and> is_word (take (length s - length WILD_PLACEHOLDER) s))"

text \<open>\<open>__get_token_type\<close>; the lexeme is not empty.\<close>

definition get_token_type :: "string \<Rightarrow> error + token_type" where
  "get_token_type t =
     (if t = ''('' then Inr T_OPEN
      else if t = '')'' then Inr T_CLOSE
      else if quote_char (hd t) then Inr T_PHRASE
      else if lower t = ''and'' then Inr T_AND
      else if lower t = ''or'' then Inr T_OR
      else if lower t = ''not'' \<or> lower t = ''!'' \<or> lower t = ''-'' then Inr T_NOT
      else if t = ''+'' then Inr T_PLUS
      else if t = ''~'' then Inl (ParseSyntaxError ''proximity searches not supported'')
      else if t = ''/'' then Inl (ParseSyntaxError ''regular expression searches not supported'')
      else if contains t WILD_PLACEHOLDER \<and> \<not> is_wild_term t
        then Inl (ParseSyntaxError (''* can only appear the end of a term: '' @ t))
      else if t = NOOP_PLACEHOLDER then Inr T_NOOP
      else if endswith t FIELD_PLACEHOLDER then Inr T_FIELD
      else if is_word t then Inr T_TERM
      else Inl (ParseSyntaxError (''unrecognized token '' @ [CHR 0x27] @ t @ [CHR 0x27])))"

text \<open>
  The loop of \<open>__get_tokens\<close> over the lexemes: empty ones are skipped, the first lexeme that
  cannot be classified raises, and the tokenizer's own exception, if any, comes last.
\<close>

fun classify_tokens :: "string list \<Rightarrow> error option \<Rightarrow> error + token list" where
  "classify_tokens [] None = Inr []"
| "classify_tokens [] (Some e) = Inl e"
| "classify_tokens (v # vs) e =
     (if length v > 0 then
        (case get_token_type v of
           Inl err \<Rightarrow> Inl err
         | Inr ty \<Rightarrow>
             (case classify_tokens vs e of
                Inl err \<Rightarrow> Inl err
              | Inr ts \<Rightarrow> Inr (Token v ty # ts)))
      else classify_tokens vs e)"

definition get_tokens :: "string \<Rightarrow> error + token list" where
  "get_tokens query =
     (let (raw_tokens, e) = generate_tokens (normalize_query query)
      in classify_tokens raw_tokens e)"

subsection \<open>Parse trees\<close>

text \<open>
  \<open>filter_tree\<close> compares the function it is given with the one recorded in a node by
  \<open>==\<close>, which for Python functions is object identity. A function object is therefore a
  value with an identity and a behaviour; the two static methods of \<open>ParseNode\<close> have
  identities of their own.
\<close>

datatype function_id =
    Node_is_field_or_noop
  | Node_is_field_or_noop_or_not
  | Other_function nat

text \<open>
  The classes \<open>TermNode\<close>, \<open>AndNode\<close>, \<open>OrNode\<close>, \<open>NotNode\<close>, \<open>FieldNode\<close> and \<open>NoopNode\<close>. The last
  argument of every constructor is the attribute \<open>filtered_by_function\<close> (\<open>None\<close> in the class).
  The arguments of \<open>TermNode\<close> are \<open>term\<close>, \<open>wildcard\<close> and \<open>phrase\<close>. An operand list may hold
  \<open>None\<close>, which \<open>__parse_tokens\<close> appends for an empty group; the back reference \<open>parent\<close> is
  read by no operation and is left out.
\<close>

datatype node =
    TermNode string bool bool "function_id option"
  | AndNode "node option list" "function_id option"
  | OrNode "node option list" "function_id option"
  | NotNode node "function_id option"
  | FieldNode string node "function_id option"
  | NoopNode "function_id option"

fun filtered_by_function :: "node \<Rightarrow> function_id option" where
  "filtered_by_function (TermNode t w p m) = m"
| "filtered_by_function (AndNode ops m) = m"
| "filtered_by_function (OrNode ops m) = m"
| "filtered_by_function (NotNode x m) = m"
| "filtered_by_function (FieldNode f x m) = m"
| "filtered_by_function (NoopNode m) = m"

fun set_filtered_by_function :: "function_id option \<Rightarrow> node \<Rightarrow> node" where
  "set_filtered_by_function v (TermNode t w p m) = TermNode t w p v"
| "set_filtered_by_function v (AndNode ops m) = AndNode ops v"
| "set_filtered_by_function v (OrNode ops m) = OrNode ops v"
| "set_filtered_by_function v (NotNode x m) = NotNode x v"
| "set_filtered_by_function v (FieldNode f x m) = FieldNode f x v"
| "set_filtered_by_function v (NoopNode m) = NoopNode v"

text \<open>\<open>type(x)\<close> for a node or \<open>None\<close>.\<close>

datatype node_class =
  C_TermNode | C_AndNode | C_OrNode | C_NotNode | C_FieldNode | C_NoopNode | C_NoneType

fun type_of :: "node option \<Rightarrow> node_class" where
  "type_of None = C_NoneType"
| "type_of (Some (TermNode t w p m)) = C_TermNode"
| "type_of (Some (AndNode ops m)) = C_AndNode"
| "type_of (Some (OrNode ops m)) = C_OrNode"
| "type_of (Some (NotNode x m)) = C_NotNode"
| "type_of (Some (FieldNode f x m)) = C_FieldNode"
| "type_of (Some (NoopNode m)) = C_NoopNode"

text \<open>
  The constructors. \<open>BooleanNode.__init__\<close>, \<open>NotNode.__init__\<close> and \<open>FieldNode.__init__\<close> set
  \<open>operand.parent\<close>, which raises \<open>AttributeError\<close> when the operand is \<open>None\<close>.
\<close>

definition no_parent :: error where
  "no_parent = AttributeError ''NoneType object has no attribute parent''"

definition new_BooleanNode :: "node_class \<Rightarrow> node option list \<Rightarrow> error + node" where
  "new_BooleanNode cls ops =
     (if None \<in> set ops then Inl no_parent
      else if cls = C_OrNode then Inr (OrNode ops None)
      else Inr (AndNode ops None))"

definition new_NotNode :: "node option \<Rightarrow> error + node" where
  "new_NotNode x = (case x of None \<Rightarrow> Inl no_parent | Some y \<Rightarrow> Inr (NotNode y None))"

definition new_FieldNode :: "string \<Rightarrow> node option \<Rightarrow> error + node" where
  "new_FieldNode f x = (case x of None \<Rightarrow> Inl no_parent | Some y \<Rightarrow> Inr (FieldNode f y None))"

subsection \<open>The parser: \<open>__parse_tokens\<close>\<close>

text \<open>
  The function reads the shared token list from the front and returns, beside the clause, the
  tokens it has left, which the caller goes on reading. \<open>boolean_clause\<close> is \<open>None\<close> at the
  start of every iteration (the end of the loop body resets it), so it is a value of the
  iteration and not of the loop state. Every iteration and every nested call takes one unit
  of fuel; the result \<open>None\<close> says that the fuel ran out.
\<close>

definition is_boolean :: "node option \<Rightarrow> bool" where
  "is_boolean c = (type_of c = C_AndNode \<or> type_of c = C_OrNode)"

text \<open>The insertion of the implicit operators: the token to handle and the tokens left.\<close>

definition insert_implicit :: "node option \<Rightarrow> bool \<Rightarrow> token \<Rightarrow> token list \<Rightarrow> token \<times> token list"
  where
  "insert_implicit clause hanging_boolean tok tokens =
     (if hanging_boolean then (tok, tokens)
      else if clause \<noteq> None \<and> token_type tok \<in> set [T_OPEN, T_PHRASE, T_TERM, T_NOOP, T_FIELD]
        then (Token ''or'' T_OR, tok # tokens)
      else if clause \<noteq> None \<and> token_type tok \<in> set [T_NOT]
        then (Token ''and'' T_AND, tok # tokens)
      else (tok, tokens))"

text \<open>
  The end of the loop body: the clause just parsed becomes an operand of \<open>boolean_clause\<close>.
  \<open>boolean_clause\<close> is an \<open>AndNode\<close> or an \<open>OrNode\<close> whenever it is set; for any other node
  the source leaves the tree of \<open>boolean_clause\<close> as it is.
\<close>

fun boolean_append :: "node \<Rightarrow> node option \<Rightarrow> node" where
  "boolean_append (AndNode ops m) (Some (AndNode ops' m')) = AndNode (ops @ ops') m"
| "boolean_append (OrNode ops m) (Some (OrNode ops' m')) = OrNode (ops @ ops') m"
| "boolean_append (AndNode ops m) c = AndNode (ops @ [c]) m"
| "boolean_append (OrNode ops m) c = OrNode (ops @ [c]) m"
| "boolean_append b c = b"

definition end_of_body :: "node option \<Rightarrow> node option \<Rightarrow> node option" where
  "end_of_body boolean_clause clause =
     (case boolean_clause of None \<Rightarrow> clause | Some b \<Rightarrow> Some (boolean_append b clause))"

text \<open>The clause of an \<open>AND\<close>, \<open>OR\<close> or \<open>PLUS\<close> token.\<close>

definition operator_clause :: "token_type \<Rightarrow> node option \<Rightarrow> error + node" where
  "operator_clause ty clause =
     (let cls = (if ty = T_OR then C_OrNode else C_AndNode)
      in if type_of clause = cls then
           (case clause of
              Some (AndNode ops m) \<Rightarrow> new_BooleanNode cls ops
            | Some (OrNode ops m) \<Rightarrow> new_BooleanNode cls ops
            | _ \<Rightarrow> new_BooleanNode cls [clause])
         else new_BooleanNode cls [clause])"

text \<open>The clause of a \<open>TERM\<close> token.\<close>

definition term_clause :: "token \<Rightarrow> node" where
  "term_clause tok =
     (if endswith (token_value tok) WILD_PLACEHOLDER
      then TermNode (replace (token_value tok) WILD_PLACEHOLDER []) True False None
      else TermNode (token_value tok) False False None)"

type_synonym parse_result = "(error + node option \<times> token list) option"

definition after_parse ::
  "parse_result \<Rightarrow> (node option \<Rightarrow> token list \<Rightarrow> parse_result) \<Rightarrow> parse_result" where
  "after_parse r k =
     (case r of
        None \<Rightarrow> None
      | Some (Inl e) \<Rightarrow> Some (Inl e)
      | Some (Inr (c, tokens)) \<Rightarrow> k c tokens)"

definition after_new :: "error + node \<Rightarrow> (node \<Rightarrow> parse_result) \<Rightarrow> parse_result" where
  "after_new r k = (case r of Inl e \<Rightarrow> Some (Inl e) | Inr x \<Rightarrow> k x)"

definition pop_error :: error where
  "pop_error = IndexError ''pop from empty list''"

definition unexpected :: error where
  "unexpected = ParseSyntaxError ''Token is not one of the following expected types''"

fun parse_tokens ::
  "nat \<Rightarrow> token list \<Rightarrow> token_type list \<Rightarrow> node option \<Rightarrow> bool \<Rightarrow> parse_result" where
  "parse_tokens 0 tokens want_type clause hanging_boolean = None"
| "parse_tokens (Suc n) [] want_type clause hanging_boolean = Some (Inr (clause, []))"
| "parse_tokens (Suc n) (tok # rest) want_type clause hanging_boolean =
     (if token_type tok = T_PLUS \<and> (clause = None \<or> is_boolean clause)
      then parse_tokens n rest want_type clause hanging_boolean
      else
        (let boolean_clause = (if hanging_boolean then clause else None);
             (token, tokens) = insert_implicit clause hanging_boolean tok rest
         in if token_type token \<notin> set want_type then Some (Inl unexpected)
            else if token_type token = T_OPEN then
              after_parse
                (parse_tokens n tokens
                   [T_OPEN, T_PHRASE, T_NOT, T_FIELD, T_TERM, T_NOOP, T_CLOSE] None False)
                (\<lambda>c tokens'. parse_tokens n tokens'
                   [T_OPEN, T_PHRASE, T_NOT, T_FIELD, T_TERM, T_NOOP, T_CLOSE, T_AND, T_OR,
                    T_PLUS, T_CLOSE]
                   (end_of_body boolean_clause c) False)
            else if token_type token = T_CLOSE then Some (Inr (clause, tokens))
            else if token_type token = T_NOOP then
              parse_tokens n tokens [T_CLOSE, T_AND, T_OR, T_PLUS, T_CLOSE]
                (end_of_body boolean_clause (Some (NoopNode None))) False
            else if token_type token = T_TERM then
              parse_tokens n tokens [T_CLOSE, T_AND, T_OR, T_PLUS, T_CLOSE]
                (end_of_body boolean_clause (Some (term_clause token))) False
            else if token_type token = T_PHRASE then
              parse_tokens n tokens [T_CLOSE, T_AND, T_OR, T_PLUS, T_CLOSE]
                (end_of_body boolean_clause (Some (TermNode (token_value token) False True None)))
                False
            else if token_type token \<in> set [T_AND, T_PLUS, T_OR] then
              after_new (operator_clause (token_type token) clause)
                (\<lambda>c. parse_tokens n tokens
                   [T_OPEN, T_PHRASE, T_NOT, T_FIELD, T_TERM, T_NOOP, T_CLOSE, T_PLUS, T_CLOSE]
                   (end_of_body boolean_clause (Some c)) True)
            else if token_type token = T_FIELD then
              (case tokens of
                 [] \<Rightarrow> Some (Inl pop_error)
               | next_token # tokens1 \<Rightarrow>
                   after_parse
                     (if token_type next_token = T_OPEN
                      then parse_tokens n tokens1
                             [T_PHRASE, T_NOT, T_TERM, T_NOOP, T_CLOSE, T_PLUS] None False
                      else after_parse
                             (parse_tokens n [next_token] [T_PHRASE, T_TERM, T_NOOP] None False)
                             (\<lambda>c unused. Some (Inr (c, tokens1))))
                     (\<lambda>field_clause tokens'.
                        after_new
                          (new_FieldNode (replace (token_value token) FIELD_PLACEHOLDER [])
                             field_clause)
                          (\<lambda>c. parse_tokens n tokens' [T_CLOSE, T_AND, T_OR, T_PLUS, T_CLOSE]
                                 (end_of_body boolean_clause (Some c)) False)))
            else if token_type token = T_NOT then
              (case tokens of
                 [] \<Rightarrow> Some (Inl pop_error)
               | next_token # tokens1 \<Rightarrow>
                   after_parse
                     (if token_type next_token = T_OPEN
                      then parse_tokens n tokens1
                             [T_FIELD, T_PHRASE, T_NOT, T_TERM, T_NOOP, T_CLOSE, T_PLUS] None False
                      else if token_type next_token = T_FIELD
                      then parse_tokens n (next_token # tokens1) [T_FIELD] None False
                      else after_parse
                             (parse_tokens n [next_token] [T_PHRASE, T_TERM, T_NOOP, T_FIELD]
                                None False)
                             (\<lambda>c unused. Some (Inr (c, tokens1))))
                     (\<lambda>operand tokens'.
                        after_new (new_NotNode operand)
                          (\<lambda>c. parse_tokens n tokens' [T_CLOSE, T_AND, T_OR, T_PLUS, T_CLOSE]
                                 (end_of_body boolean_clause (Some c)) False)))
            else Some (Inl (ParseSyntaxError ''unknown type for token''))))"

text \<open>
  \<open>parse\<close>: the query in parentheses, tokenized and parsed with the default \<open>want_type\<close>. The
  fuel is enough for every token list (\<open>parse_tokens_fuel\<close> and \<open>parse_returns\<close> below).
\<close>

definition default_want_type :: "token_type list" where
  "default_want_type = [T_OPEN, T_PHRASE, T_NOT, T_TERM]"

definition parse_fuel :: "token list \<Rightarrow> nat" where
  "parse_fuel tokens = 2 * length tokens + 2"

definition parse_token_list :: "token list \<Rightarrow> (error + node option) option" where
  "parse_token_list tokens =
     (case parse_tokens (parse_fuel tokens) tokens default_want_type None False of
        None \<Rightarrow> None
      | Some (Inl e) \<Rightarrow> Some (Inl e)
      | Some (Inr (c, unused)) \<Rightarrow> Some (Inr c))"

definition parse :: "string \<Rightarrow> (error + node option) option" where
  "parse solr_query =
     (case get_tokens (''( '' @ solr_query @ '' )'') of
        Inl e \<Rightarrow> Some (Inl e)
      | Inr tokens \<Rightarrow> parse_token_list tokens)"

subsection \<open>The tree filter: \<open>filter_tree\<close>\<close>

datatype py_function = Py_function (fn_id: function_id) (fn_call: "node \<Rightarrow> bool")

text \<open>
  \<open>filter_tree\<close>, \<open>_filter_node_children\<close> of each class, and the loop of
  \<open>_filter_boolean_node_children\<close> over the operands (\<open>filter_operands\<close>), where calling
  \<open>filter_tree\<close> on \<open>None\<close> raises \<open>AttributeError\<close>.
\<close>

definition no_filter_tree :: error where
  "no_filter_tree = AttributeError ''NoneType object has no attribute filter_tree''"

fun filter_tree :: "py_function \<Rightarrow> node \<Rightarrow> error + node option"
  and filter_node_children :: "py_function \<Rightarrow> node \<Rightarrow> error + node option"
  and filter_operands :: "py_function \<Rightarrow> node option list \<Rightarrow> error + node option list" where
  "filter_tree f n =
     (if filtered_by_function n = Some (fn_id f) then Inr (Some n)
      else if fn_call f n then Inr None
      else (case filter_node_children f n of
              Inl e \<Rightarrow> Inl e
            | Inr None \<Rightarrow> Inr None
            | Inr (Some t) \<Rightarrow> Inr (Some (set_filtered_by_function (Some (fn_id f)) t))))"
| "filter_node_children f (TermNode t w p m) = Inr (Some (TermNode t w p None))"
| "filter_node_children f (AndNode ops m) =
     (case filter_operands f ops of
        Inl e \<Rightarrow> Inl e
      | Inr filtered_operands \<Rightarrow>
          if length filtered_operands > 0
          then map_sum id Some (new_BooleanNode C_AndNode filtered_operands)
          else Inr None)"
| "filter_node_children f (OrNode ops m) =
     (case filter_operands f ops of
        Inl e \<Rightarrow> Inl e
      | Inr filtered_operands \<Rightarrow>
          if length filtered_operands > 0
          then map_sum id Some (new_BooleanNode C_OrNode filtered_operands)
          else Inr None)"
| "filter_node_children f (NotNode x m) =
     (case filter_tree f x of
        Inl e \<Rightarrow> Inl e
      | Inr None \<Rightarrow> Inr None
      | Inr (Some y) \<Rightarrow> map_sum id Some (new_NotNode (Some y)))"
| "filter_node_children f (FieldNode name x m) =
     (case filter_tree f x of
        Inl e \<Rightarrow> Inl e
      | Inr None \<Rightarrow> Inr None
      | Inr (Some y) \<Rightarrow> map_sum id Some (new_FieldNode name (Some y)))"
| "filter_node_children f (NoopNode m) = Inr (Some (NoopNode None))"
| "filter_operands f [] = Inr []"
| "filter_operands f (None # xs) = Inl no_filter_tree"
| "filter_operands f (Some x # xs) =
     (case filter_tree f x of
        Inl e \<Rightarrow> Inl e
      | Inr r \<Rightarrow>
          (case filter_operands f xs of
             Inl e \<Rightarrow> Inl e
           | Inr ys \<Rightarrow> Inr (case r of None \<Rightarrow> ys | Some y \<Rightarrow> Some y # ys)))"

text \<open>The two static methods \<open>__node_is_field_or_noop\<close> and \<open>__node_is_field_or_noop_or_not\<close>.\<close>

fun node_is_field_or_noop :: "node \<Rightarrow> bool" where
  "node_is_field_or_noop (FieldNode name x m) = (name \<noteq> ''sentence'')"
| "node_is_field_or_noop (NoopNode m) = True"
| "node_is_field_or_noop n = False"

fun node_is_field_or_noop_or_not :: "node \<Rightarrow> bool" where
  "node_is_field_or_noop_or_not (FieldNode name x m) = (name \<noteq> ''sentence'')"
| "node_is_field_or_noop_or_not (NoopNode m) = True"
| "node_is_field_or_noop_or_not (NotNode x m) = True"
| "node_is_field_or_noop_or_not n = False"

definition tsquery_filter :: py_function where
  "tsquery_filter = Py_function Node_is_field_or_noop node_is_field_or_noop"

definition re_filter :: py_function where
  "re_filter = Py_function Node_is_field_or_noop_or_not node_is_field_or_noop_or_not"

subsection \<open>Library functions of the emitters\<close>

text \<open>
  \<open>shlex.split(s)\<close>: the state machine of \<open>shlex.read_token\<close> in POSIX mode with
  \<open>whitespace_split\<close> and no comment characters. The state is blank (between words), in a
  word, in a quotation, or after a backslash (with the state to go back to); \<open>quoted\<close> says
  that the word under construction had a quotation, so that it is a word even when empty.
\<close>

datatype shlex_state = Blank | Word | Quote char | Escape "char option"

definition shlex_space :: "char \<Rightarrow> bool" where
  "shlex_space c = (c = CHR '' '' \<or> c = CHR 0x09 \<or> c = CHR 0x0D \<or> c = CHR 0x0A)"

fun shlex_run :: "shlex_state \<Rightarrow> string \<Rightarrow> bool \<Rightarrow> string \<Rightarrow> error + string list" where
  "shlex_run Blank tok quoted [] = Inr []"
| "shlex_run Word tok quoted [] = Inr (if tok \<noteq> [] \<or> quoted then [tok] else [])"
| "shlex_run (Quote q) tok quoted [] = Inl (ValueError ''No closing quotation'')"
| "shlex_run (Escape e) tok quoted [] = Inl (ValueError ''No escaped character'')"
| "shlex_run Blank tok quoted (c # cs) =
     (if shlex_space c then shlex_run Blank tok quoted cs
      else if c = CHR 0x5C then shlex_run (Escape None) tok quoted cs
      else if quote_char c then shlex_run (Quote c) tok True cs
      else shlex_run Word [c] quoted cs)"
| "shlex_run Word tok quoted (c # cs) =
     (if shlex_space c then
        (if tok \<noteq> [] \<or> quoted then map_sum id ((#) tok) (shlex_run Blank [] False cs)
         else shlex_run Blank tok quoted cs)
      else if quote_char c then shlex_run (Quote c) tok True cs
      else if c = CHR 0x5C then shlex_run (Escape None) tok quoted cs
      else shlex_run Word (tok @ [c]) quoted cs)"
| "shlex_run (Quote q) tok quoted (c # cs) =
     (if c = q then shlex_run Word tok quoted cs
      else if c = CHR 0x5C \<and> q = CHR 0x22 then shlex_run (Escape (Some q)) tok quoted cs
      else shlex_run (Quote q) (tok @ [c]) quoted cs)"
| "shlex_run (Escape None) tok quoted (c # cs) = shlex_run Word (tok @ [c]) quoted cs"
| "shlex_run (Escape (Some q)) tok quoted (c # cs) =
     (if c \<noteq> CHR 0x5C \<and> c \<noteq> q then shlex_run (Quote q) (tok @ [CHR 0x5C, c]) quoted cs
      else shlex_run (Quote q) (tok @ [c]) quoted cs)"

definition shlex_split :: "string \<Rightarrow> error + string list" where
  "shlex_split s = shlex_run Blank [] False s"

text \<open>\<open>shlex.split(s)[0]\<close>.\<close>

definition shlex_first :: "string \<Rightarrow> error + string" where
  "shlex_first s =
     (case shlex_split s of
        Inl e \<Rightarrow> Inl e
      | Inr [] \<Rightarrow> Inl (IndexError ''list index out of range'')
      | Inr (w # ws) \<Rightarrow> Inr w)"

text \<open>
  \<open>re.split('\W+', s)\<close>: the pieces between the runs of characters that are not word
  characters, empty pieces at both ends included. \<open>in_run\<close> says that the last character read
  belongs to such a run.
\<close>

fun split_nonword :: "bool \<Rightarrow> string \<Rightarrow> string \<Rightarrow> string list" where
  "split_nonword in_run piece [] = [piece]"
| "split_nonword in_run piece (c # cs) =
     (if word_char c then split_nonword False (piece @ [c]) cs
      else if in_run then split_nonword True piece cs
      else piece # split_nonword True [] cs)"

definition re_split_nonword :: "string \<Rightarrow> string list" where
  "re_split_nonword s = split_nonword False [] s"

text \<open>\<open>re.sub(r'\s+', r, s)\<close>.\<close>

fun sub_spaces :: "bool \<Rightarrow> string \<Rightarrow> string \<Rightarrow> string" where
  "sub_spaces in_run r [] = []"
| "sub_spaces in_run r (c # cs) =
     (if space_char c then (if in_run then sub_spaces True r cs else r @ sub_spaces True r cs)
      else c # sub_spaces False r cs)"

text \<open>
  \<open>re.escape(s)\<close>, as Python 3.7 and later define it: a backslash before each of the
  characters \<open>()[]{}?*+-|^$\.&~#\<close>, before the space and before tab, newline, carriage
  return, vertical tab and form feed (the code points 9 to 13).
\<close>

definition re_special :: "char \<Rightarrow> bool" where
  "re_special c =
     (c \<in> set ''()[]{}?*+-|^$.&~# '' \<or> c = CHR 0x5C
      \<or> (let n = (of_char c :: nat) in 9 \<le> n \<and> n \<le> 13))"

definition re_escape :: "string \<Rightarrow> string" where
  "re_escape s = concat (map (\<lambda>c. if re_special c then [CHR 0x5C, c] else [c]) s)"

subsection \<open>The tsquery emitter\<close>

text \<open>\<open>BooleanNode.get_tsquery\<close> once the operands have been emitted.\<close>

definition boolean_tsquery :: "string \<Rightarrow> string list \<Rightarrow> string" where
  "boolean_tsquery connector xs = ''( '' @ join ('' '' @ connector @ '' '') xs @ '' )''"

definition no_get_tsquery :: error where
  "no_get_tsquery = AttributeError ''NoneType object has no attribute get_tsquery''"

text \<open>
  The words of a phrase, as \<open>TermNode.get_tsquery\<close> collects them: the pieces of
  \<open>re.split('\W+', dequoted_phrase)\<close> that are not empty.
\<close>

definition phrase_words :: "string \<Rightarrow> string list" where
  "phrase_words dequoted_phrase = filter (\<lambda>t. t \<noteq> []) (re_split_nonword dequoted_phrase)"

text \<open>
  \<open>get_tsquery\<close> of each class. For a phrase the source builds \<open>AndNode(operands)\<close> from plain
  \<open>TermNode\<close>s and calls its \<open>get_tsquery\<close>; a plain \<open>TermNode\<close> emits its term, so the call
  is \<open>boolean_tsquery\<close> of the words (\<open>phrase_as_and_node\<close> below proves it equal to the call).
\<close>

fun get_tsquery :: "node \<Rightarrow> error + string"
  and get_tsquery_operands :: "node option list \<Rightarrow> error + string list" where
  "get_tsquery (TermNode t wildcard phrase m) =
     (if phrase then
        (case shlex_first t of
           Inl e \<Rightarrow> Inl e
         | Inr dequoted_phrase \<Rightarrow>
             if length (phrase_words dequoted_phrase) = 0
             then Inl (ParseSyntaxError ''empty phrase not allowed'')
             else Inr (boolean_tsquery ''&'' (phrase_words dequoted_phrase)))
      else Inr (if \<not> wildcard then t else t @ '':*''))"
| "get_tsquery (AndNode ops m) = map_sum id (boolean_tsquery ''&'') (get_tsquery_operands ops)"
| "get_tsquery (OrNode ops m) = map_sum id (boolean_tsquery ''|'') (get_tsquery_operands ops)"
| "get_tsquery (NotNode x m) = map_sum id ((@) ''!'') (get_tsquery x)"
| "get_tsquery (FieldNode name x m) =
     (if name = ''sentence'' then get_tsquery x
      else Inl (ValueError ''non-sentence field nodes should have been filtered''))"
| "get_tsquery (NoopNode m) = Inl (ValueError ''noop nodes should have been filtered'')"
| "get_tsquery_operands [] = Inr []"
| "get_tsquery_operands (None # xs) = Inl no_get_tsquery"
| "get_tsquery_operands (Some x # xs) =
     (case get_tsquery x of
        Inl e \<Rightarrow> Inl e
      | Inr s \<Rightarrow> map_sum id ((#) s) (get_tsquery_operands xs))"

definition empty_query :: error where
  "empty_query = ParseSyntaxError ''query is empty without fields or ranges''"

definition tsquery :: "node \<Rightarrow> error + string" where
  "tsquery n =
     (case filter_tree tsquery_filter n of
        Inl e \<Rightarrow> Inl e
      | Inr None \<Rightarrow> Inl empty_query
      | Inr (Some filtered_tree) \<Rightarrow> get_tsquery filtered_tree)"

subsection \<open>The regular expression emitter\<close>

definition no_get_re :: error where
  "no_get_re = AttributeError ''NoneType object has no attribute get_re''"

definition and_re :: "string \<Rightarrow> string \<Rightarrow> string" where
  "and_re a b =
     ''(?: (?: '' @ a @ '' .* '' @ b @ '' ) | (?: '' @ b @ '' .* '' @ a @ '' ) )''"

text \<open>
  \<open>get_re\<close> of each class; \<open>and_get_re\<close> is \<open>AndNode.get_re\<close> with its argument \<open>operands\<close>
  (\<open>operands[0]\<close> of an empty list raises \<open>IndexError\<close>), \<open>get_re_operands\<close> the \<open>map\<close> of
  \<open>OrNode.get_re\<close>.
\<close>

fun get_re :: "node \<Rightarrow> error + string"
  and and_get_re :: "node option list \<Rightarrow> error + string"
  and get_re_operands :: "node option list \<Rightarrow> error + string list" where
  "get_re (TermNode t wildcard phrase m) =
     (if phrase then
        (case shlex_first t of
           Inl e \<Rightarrow> Inl e
         | Inr d \<Rightarrow>
             Inr (''[[:<:]]'' @
                  replace (re_escape (sub_spaces False ''SPACE'' (lower d))) ''SPACE''
                    ''[[:space:]]+''))
      else Inr (''[[:<:]]'' @ re_escape t))"
| "get_re (AndNode ops m) = and_get_re ops"
| "get_re (OrNode ops m) =
     map_sum id (\<lambda>xs. ''(?: '' @ join '' | '' xs @ '' )'') (get_re_operands ops)"
| "get_re (NotNode x m) = Inl (ParseSyntaxError ''not operations not supported for re()'')"
| "get_re (FieldNode name x m) =
     (if name = ''sentence'' then get_re x
      else Inl (ValueError ''non-sentence field nodes should have been filtered''))"
| "get_re (NoopNode m) = Inl (ValueError ''noop nodes should have been filtered'')"
| "and_get_re [] = Inl (IndexError ''list index out of range'')"
| "and_get_re [None] = Inl no_get_re"
| "and_get_re [Some x] = get_re x"
| "and_get_re (None # y # ys) = Inl no_get_re"
| "and_get_re (Some x # y # ys) =
     (case get_re x of
        Inl e \<Rightarrow> Inl e
      | Inr a \<Rightarrow> (case and_get_re (y # ys) of Inl e \<Rightarrow> Inl e | Inr b \<Rightarrow> Inr (and_re a b)))"
| "get_re_operands [] = Inr []"
| "get_re_operands (None # xs) = Inl no_get_re"
| "get_re_operands (Some x # xs) =
     (case get_re x of
        Inl e \<Rightarrow> Inl e
      | Inr s \<Rightarrow> map_sum id ((#) s) (get_re_operands xs))"

definition re :: "node \<Rightarrow> error + string" where
  "re n =
     (case filter_tree re_filter n of
        Inl e \<Rightarrow> Inl e
      | Inr None \<Rightarrow> Inl empty_query
      | Inr (Some filtered_tree) \<Rightarrow> get_re filtered_tree)"

subsection \<open>The calls \<open>parse(q).tsquery()\<close> and \<open>parse(q).re()\<close>\<close>

definition parse_tsquery :: "string \<Rightarrow> (error + string) option" where
  "parse_tsquery q =
     (case parse q of
        None \<Rightarrow> None
      | Some (Inl e) \<Rightarrow> Some (Inl e)
      | Some (Inr None) \<Rightarrow> Some (Inl (AttributeError ''NoneType object has no attribute tsquery''))
      | Some (Inr (Some t)) \<Rightarrow> Some (tsquery t))"

definition parse_re :: "string \<Rightarrow> (error + string) option" where
  "parse_re q =
     (case parse q of
        None \<Rightarrow> None
      | Some (Inl e) \<Rightarrow> Some (Inl e)
      | Some (Inr None) \<Rightarrow> Some (Inl (AttributeError ''NoneType object has no attribute re''))
      | Some (Inr (Some t)) \<Rightarrow> Some (re t))"

subsection \<open>Predicates on trees\<close>

text \<open>
  \<open>flat t\<close>: no \<open>AndNode\<close> of \<open>t\<close> has an \<open>AndNode\<close> among its operands and no \<open>OrNode\<close> has an
  \<open>OrNode\<close> among its operands (\<open>flat_operands cls\<close> reads the operands of a node of class
  \<open>cls\<close>).
\<close>

fun flat :: "node \<Rightarrow> bool"
  and flat_operands :: "node_class \<Rightarrow> node option list \<Rightarrow> bool" where
  "flat (TermNode t w p m) = True"
| "flat (AndNode ops m) = flat_operands C_AndNode ops"
| "flat (OrNode ops m) = flat_operands C_OrNode ops"
| "flat (NotNode x m) = flat x"
| "flat (FieldNode f x m) = flat x"
| "flat (NoopNode m) = True"
| "flat_operands cls [] = True"
| "flat_operands cls (None # xs) = flat_operands cls xs"
| "flat_operands cls (Some x # xs) = (type_of (Some x) \<noteq> cls \<and> flat x \<and> flat_operands cls xs)"

fun flat_clause :: "node option \<Rightarrow> bool" where
  "flat_clause None = True"
| "flat_clause (Some t) = flat t"

text \<open>\<open>unfiltered t\<close>: no node of \<open>t\<close> records a filter function.\<close>

fun unfiltered :: "node \<Rightarrow> bool"
  and unfiltered_operands :: "node option list \<Rightarrow> bool" where
  "unfiltered (TermNode t w p m) = (m = None)"
| "unfiltered (AndNode ops m) = (m = None \<and> unfiltered_operands ops)"
| "unfiltered (OrNode ops m) = (m = None \<and> unfiltered_operands ops)"
| "unfiltered (NotNode x m) = (m = None \<and> unfiltered x)"
| "unfiltered (FieldNode f x m) = (m = None \<and> unfiltered x)"
| "unfiltered (NoopNode m) = (m = None)"
| "unfiltered_operands [] = True"
| "unfiltered_operands (None # xs) = unfiltered_operands xs"
| "unfiltered_operands (Some x # xs) = (unfiltered x \<and> unfiltered_operands xs)"

fun unfiltered_clause :: "node option \<Rightarrow> bool" where
  "unfiltered_clause None = True"
| "unfiltered_clause (Some t) = unfiltered t"

text \<open>\<open>has_not t\<close>: some node of \<open>t\<close> is a \<open>NotNode\<close>.\<close>

fun has_not :: "node \<Rightarrow> bool"
  and has_not_operands :: "node option list \<Rightarrow> bool" where
  "has_not (TermNode t w p m) = False"
| "has_not (AndNode ops m) = has_not_operands ops"
| "has_not (OrNode ops m) = has_not_operands ops"
| "has_not (NotNode x m) = True"
| "has_not (FieldNode f x m) = has_not x"
| "has_not (NoopNode m) = False"
| "has_not_operands [] = False"
| "has_not_operands (None # xs) = has_not_operands xs"
| "has_not_operands (Some x # xs) = (has_not x \<or> has_not_operands xs)"

text \<open>
  \<open>negated_only t\<close>: \<open>t\<close> consists only of negated content: it is a \<open>NotNode\<close>, or an
  \<open>AndNode\<close> or \<open>OrNode\<close> whose operands all do, or a \<open>FieldNode\<close> whose operand does.
\<close>

fun negated_only :: "node \<Rightarrow> bool"
  and negated_only_operands :: "node option list \<Rightarrow> bool" where
  "negated_only (TermNode t w p m) = False"
| "negated_only (AndNode ops m) = negated_only_operands ops"
| "negated_only (OrNode ops m) = negated_only_operands ops"
| "negated_only (NotNode x m) = True"
| "negated_only (FieldNode f x m) = negated_only x"
| "negated_only (NoopNode m) = False"
| "negated_only_operands [] = True"
| "negated_only_operands (None # xs) = False"
| "negated_only_operands (Some x # xs) = (negated_only x \<and> negated_only_operands xs)"

subsection \<open>The filter on the heap\<close>

text \<open>
  \<open>filter_tree\<close> again, with the objects in a store, for the claims about what the filter
  writes. An address is an index of the store; a reference is an address or \<open>None\<close>. A cell
  is a node object with its attributes \<open>parent\<close> and \<open>filtered_by_function\<close>, or a list object
  (the operand list of an \<open>AndNode\<close> or \<open>OrNode\<close>, which the node refers to by address).
  Allocation appends a cell to the store.
\<close>

type_synonym addr = nat

datatype hnode =
    HTerm string bool bool
  | HAnd addr
  | HOr addr
  | HNot addr
  | HField string addr
  | HNoop

datatype cell =
    NodeCell hnode "addr option" "function_id option"
  | ListCell "addr option list"

type_synonym heap = "cell list"

definition lookup :: "heap \<Rightarrow> addr \<Rightarrow> cell option" where
  "lookup h a = (if a < length h then Some (h ! a) else None)"

definition alloc :: "heap \<Rightarrow> cell \<Rightarrow> heap \<times> addr" where
  "alloc h c = (h @ [c], length h)"

text \<open>\<open>operand.parent = self\<close> and \<open>node.filtered_by_function = f\<close>.\<close>

definition set_parent :: "heap \<Rightarrow> addr \<Rightarrow> addr \<Rightarrow> heap" where
  "set_parent h a p =
     (case lookup h a of
        Some (NodeCell n par m) \<Rightarrow> h[a := NodeCell n (Some p) m]
      | _ \<Rightarrow> h)"

definition set_memo :: "heap \<Rightarrow> addr \<Rightarrow> function_id \<Rightarrow> heap" where
  "set_memo h a f =
     (case lookup h a of
        Some (NodeCell n par m) \<Rightarrow> h[a := NodeCell n par (Some f)]
      | _ \<Rightarrow> h)"

text \<open>The loop of \<open>BooleanNode.__init__\<close> over the operands, none of which is \<open>None\<close> here.\<close>

fun set_parents :: "heap \<Rightarrow> addr list \<Rightarrow> addr \<Rightarrow> heap" where
  "set_parents h [] p = h"
| "set_parents h (a # xs) p = set_parents (set_parent h a p) xs p"

text \<open>A filter function on the heap: its identity, and its result for the object at an address.\<close>

datatype heap_function =
  Heap_function (hfn_id: function_id) (hfn_call: "heap \<Rightarrow> addr \<Rightarrow> bool")

type_synonym 'a heap_result = "(heap \<times> (error + 'a)) option"

definition not_a_node :: error where
  "not_a_node = AttributeError ''object has no attribute filter_tree''"

definition not_a_list :: error where
  "not_a_list = AttributeError ''object is not iterable''"

text \<open>
  \<open>heap_filter_tree\<close> is \<open>filter_tree\<close>, \<open>heap_filter_node_children\<close> is \<open>_filter_node_children\<close>
  of the class of the node, and \<open>heap_filter_operands f src i filtered_operands\<close> is the
  loop of \<open>_filter_boolean_node_children\<close> from index \<open>i\<close> of the list at \<open>src\<close>. The list
  \<open>filtered_operands\<close> is local to the method until the new node takes it, so it is a value
  here and becomes a list object of the store with the node. The store may hold any graph, so
  the functions take fuel; \<open>None\<close> says that it ran out.
\<close>

fun heap_filter_tree :: "nat \<Rightarrow> heap_function \<Rightarrow> addr \<Rightarrow> heap \<Rightarrow> addr option heap_result"
  and heap_filter_node_children ::
    "nat \<Rightarrow> heap_function \<Rightarrow> hnode \<Rightarrow> heap \<Rightarrow> addr option heap_result"
  and heap_filter_operands ::
    "nat \<Rightarrow> heap_function \<Rightarrow> addr \<Rightarrow> nat \<Rightarrow> addr list \<Rightarrow> heap \<Rightarrow> addr list heap_result" where
  "heap_filter_tree 0 f a h = None"
| "heap_filter_tree (Suc n) f a h =
     (case lookup h a of
        Some (NodeCell nd par memo) \<Rightarrow>
          if memo = Some (hfn_id f) then Some (h, Inr (Some a))
          else if hfn_call f h a then Some (h, Inr None)
          else (case heap_filter_node_children n f nd h of
                  None \<Rightarrow> None
                | Some (h1, Inl e) \<Rightarrow> Some (h1, Inl e)
                | Some (h1, Inr None) \<Rightarrow> Some (h1, Inr None)
                | Some (h1, Inr (Some b)) \<Rightarrow> Some (set_memo h1 b (hfn_id f), Inr (Some b)))
      | _ \<Rightarrow> Some (h, Inl not_a_node))"
| "heap_filter_node_children n f (HTerm t w p) h =
     (let (h1, b) = alloc h (NodeCell (HTerm t w p) None None) in Some (h1, Inr (Some b)))"
| "heap_filter_node_children n f (HAnd src) h =
     (case heap_filter_operands n f src 0 [] h of
        None \<Rightarrow> None
      | Some (h1, Inl e) \<Rightarrow> Some (h1, Inl e)
      | Some (h1, Inr filtered_operands) \<Rightarrow>
          if length filtered_operands > 0 then
            (let (h2, l) = alloc h1 (ListCell (map Some filtered_operands));
                 (h3, b) = alloc h2 (NodeCell (HAnd l) None None)
             in Some (set_parents h3 filtered_operands b, Inr (Some b)))
          else Some (h1, Inr None))"
| "heap_filter_node_children n f (HOr src) h =
     (case heap_filter_operands n f src 0 [] h of
        None \<Rightarrow> None
      | Some (h1, Inl e) \<Rightarrow> Some (h1, Inl e)
      | Some (h1, Inr filtered_operands) \<Rightarrow>
          if length filtered_operands > 0 then
            (let (h2, l) = alloc h1 (ListCell (map Some filtered_operands));
                 (h3, b) = alloc h2 (NodeCell (HOr l) None None)
             in Some (set_parents h3 filtered_operands b, Inr (Some b)))
          else Some (h1, Inr None))"
| "heap_filter_node_children n f (HNot x) h =
     (case heap_filter_tree n f x h of
        None \<Rightarrow> None
      | Some (h1, Inl e) \<Rightarrow> Some (h1, Inl e)
      | Some (h1, Inr None) \<Rightarrow> Some (h1, Inr None)
      | Some (h1, Inr (Some y)) \<Rightarrow>
          (let (h2, b) = alloc h1 (NodeCell (HNot y) None None)
           in Some (set_parent h2 y b, Inr (Some b))))"
| "heap_filter_node_children n f (HField name x) h =
     (case heap_filter_tree n f x h of
        None \<Rightarrow> None
      | Some (h1, Inl e) \<Rightarrow> Some (h1, Inl e)
      | Some (h1, Inr None) \<Rightarrow> Some (h1, Inr None)
      | Some (h1, Inr (Some y)) \<Rightarrow>
          (let (h2, b) = alloc h1 (NodeCell (HField name y) None None)
           in Some (set_parent h2 y b, Inr (Some b))))"
| "heap_filter_node_children n f HNoop h =
     (let (h1, b) = alloc h (NodeCell HNoop None None) in Some (h1, Inr (Some b)))"
| "heap_filter_operands 0 f src i filtered_operands h = None"
| "heap_filter_operands (Suc n) f src i filtered_operands h =
     (case lookup h src of
        Some (ListCell xs) \<Rightarrow>
          if i < length xs then
            (case xs ! i of
               None \<Rightarrow> Some (h, Inl no_filter_tree)
             | Some x \<Rightarrow>
                 (case heap_filter_tree n f x h of
                    None \<Rightarrow> None
                  | Some (h1, Inl e) \<Rightarrow> Some (h1, Inl e)
                  | Some (h1, Inr None) \<Rightarrow>
                      heap_filter_operands n f src (Suc i) filtered_operands h1
                  | Some (h1, Inr (Some y)) \<Rightarrow>
                      heap_filter_operands n f src (Suc i) (filtered_operands @ [y]) h1))
          else Some (h, Inr filtered_operands)
      | _ \<Rightarrow> Some (h, Inl not_a_list))"

text \<open>The two static methods, on the heap.\<close>

definition heap_node_is_field_or_noop :: "heap \<Rightarrow> addr \<Rightarrow> bool" where
  "heap_node_is_field_or_noop h a =
     (case lookup h a of
        Some (NodeCell (HField name x) par m) \<Rightarrow> name \<noteq> ''sentence''
      | Some (NodeCell HNoop par m) \<Rightarrow> True
      | _ \<Rightarrow> False)"

definition heap_node_is_field_or_noop_or_not :: "heap \<Rightarrow> addr \<Rightarrow> bool" where
  "heap_node_is_field_or_noop_or_not h a =
     (case lookup h a of
        Some (NodeCell (HField name x) par m) \<Rightarrow> name \<noteq> ''sentence''
      | Some (NodeCell HNoop par m) \<Rightarrow> True
      | Some (NodeCell (HNot x) par m) \<Rightarrow> True
      | _ \<Rightarrow> False)"

definition heap_tsquery_filter :: heap_function where
  "heap_tsquery_filter = Heap_function Node_is_field_or_noop heap_node_is_field_or_noop"

definition heap_re_filter :: heap_function where
  "heap_re_filter = Heap_function Node_is_field_or_noop_or_not heap_node_is_field_or_noop_or_not"

text \<open>
  \<open>same_object c c'\<close>: the cells are the same object with the same content, \<open>parent\<close> apart:
  the same class and attributes \<open>term\<close>, \<open>wildcard\<close>, \<open>phrase\<close>, \<open>field\<close>, \<open>operand\<close>, \<open>operands\<close>
  and \<open>filtered_by_function\<close> for a node, the same elements for a list. \<open>preserved m h h'\<close>: the
  first \<open>m\<close> cells of \<open>h\<close> are the same objects in \<open>h'\<close>.
\<close>

fun same_object :: "cell \<Rightarrow> cell \<Rightarrow> bool" where
  "same_object (NodeCell n par m) (NodeCell n' par' m') = (n = n' \<and> m = m')"
| "same_object (ListCell xs) (ListCell xs') = (xs = xs')"
| "same_object c c' = False"

definition preserved :: "nat \<Rightarrow> heap \<Rightarrow> heap \<Rightarrow> bool" where
  "preserved m h h' =
     (m \<le> length h \<and> length h \<le> length h' \<and> list_all2 same_object (take m h) (take m h'))"

text \<open>
  \<open>extends h h'\<close>: the store \<open>h'\<close> is the store \<open>h\<close> with more objects after it; every object
  of \<open>h\<close> is in \<open>h'\<close> with every attribute as it was.
\<close>

definition extends :: "heap \<Rightarrow> heap \<Rightarrow> bool" where
  "extends h h' = (take (length h) h' = h)"

text \<open>
  \<open>represents k h t a\<close>: the object at address \<open>a\<close> of the store \<open>h\<close> is the root of the tree
  \<open>t\<close> (\<open>parent\<close> is not part of a tree), and every object of the tree, node or list, has an
  address from \<open>k\<close> on. \<open>represents_operands k h ops xs\<close>: the references \<open>xs\<close> are the operands
  \<open>ops\<close>.
\<close>

fun represents :: "nat \<Rightarrow> heap \<Rightarrow> node \<Rightarrow> addr \<Rightarrow> bool"
  and represents_operands :: "nat \<Rightarrow> heap \<Rightarrow> node option list \<Rightarrow> addr option list \<Rightarrow> bool" where
  "represents k h (TermNode t w p m) a =
     (k \<le> a \<and> (\<exists>par. lookup h a = Some (NodeCell (HTerm t w p) par m)))"
| "represents k h (AndNode ops m) a =
     (k \<le> a \<and> (\<exists>l par xs. lookup h a = Some (NodeCell (HAnd l) par m) \<and> k \<le> l
        \<and> lookup h l = Some (ListCell xs) \<and> represents_operands k h ops xs))"
| "represents k h (OrNode ops m) a =
     (k \<le> a \<and> (\<exists>l par xs. lookup h a = Some (NodeCell (HOr l) par m) \<and> k \<le> l
        \<and> lookup h l = Some (ListCell xs) \<and> represents_operands k h ops xs))"
| "represents k h (NotNode x m) a =
     (k \<le> a \<and> (\<exists>b par. lookup h a = Some (NodeCell (HNot b) par m) \<and> represents k h x b))"
| "represents k h (FieldNode name x m) a =
     (k \<le> a \<and> (\<exists>b par. lookup h a = Some (NodeCell (HField name b) par m) \<and> represents k h x b))"
| "represents k h (NoopNode m) a = (k \<le> a \<and> (\<exists>par. lookup h a = Some (NodeCell HNoop par m)))"
| "represents_operands k h [] xs = (xs = [])"
| "represents_operands k h (None # ops) xs =
     (\<exists>ys. xs = None # ys \<and> represents_operands k h ops ys)"
| "represents_operands k h (Some t # ops) xs =
     (\<exists>a ys. xs = Some a # ys \<and> represents k h t a \<and> represents_operands k h ops ys)"

text \<open>The fuel that the filter on the heap needs for a tree.\<close>

fun filter_fuel :: "node \<Rightarrow> nat"
  and filter_fuel_operands :: "node option list \<Rightarrow> nat" where
  "filter_fuel (TermNode t w p m) = 1"
| "filter_fuel (AndNode ops m) = Suc (filter_fuel_operands ops)"
| "filter_fuel (OrNode ops m) = Suc (filter_fuel_operands ops)"
| "filter_fuel (NotNode x m) = Suc (filter_fuel x)"
| "filter_fuel (FieldNode name x m) = Suc (filter_fuel x)"
| "filter_fuel (NoopNode m) = 1"
| "filter_fuel_operands [] = 1"
| "filter_fuel_operands (None # ops) = Suc (filter_fuel_operands ops)"
| "filter_fuel_operands (Some t # ops) = Suc (filter_fuel t + filter_fuel_operands ops)"

text \<open>
  \<open>returns_within m r\<close>: the parser did not run out of fuel, and when it returned a clause it
  left at most \<open>m\<close> tokens.
\<close>

definition returns_within :: "nat \<Rightarrow> parse_result \<Rightarrow> bool" where
  "returns_within m r =
     (case r of
        None \<Rightarrow> False
      | Some (Inl e) \<Rightarrow> True
      | Some (Inr (c, tokens)) \<Rightarrow> length tokens \<le> m)"

section \<open>Properties\<close>

subsection \<open>An invariant rule for the parser\<close>

text \<open>
  A property of clauses that holds of \<open>None\<close> and of the leaves, and that the constructors and
  the attachment of an operand preserve, holds of the result of \<open>__parse_tokens\<close>.
\<close>

lemma end_of_body_invariant:
  assumes app: "\<And>b c. P (Some b) \<Longrightarrow> P c \<Longrightarrow> P (Some (boolean_append b c))"
  shows "P bc \<Longrightarrow> P x \<Longrightarrow> P (end_of_body bc x)"
  by (cases bc) (auto simp: end_of_body_def intro: app)

lemma parse_tokens_invariant:
  assumes init: "P None"
    and noop: "P (Some (NoopNode None))"
    and trm: "\<And>tok. P (Some (term_clause tok))"
    and phrase: "\<And>v. P (Some (TermNode v False True None))"
    and oper: "\<And>ty c x. P c \<Longrightarrow> operator_clause ty c = Inr x \<Longrightarrow> P (Some x)"
    and field: "\<And>f c x. P c \<Longrightarrow> new_FieldNode f c = Inr x \<Longrightarrow> P (Some x)"
    and nott: "\<And>c x. P c \<Longrightarrow> new_NotNode c = Inr x \<Longrightarrow> P (Some x)"
    and app: "\<And>b c. P (Some b) \<Longrightarrow> P c \<Longrightarrow> P (Some (boolean_append b c))"
  shows "P clause \<Longrightarrow> parse_tokens n tokens want clause hanging = Some (Inr (c, rest))
         \<Longrightarrow> P c"
proof (induction n arbitrary: tokens want clause hanging c rest)
  case 0
  then show ?case by simp
next
  case (Suc n)
  note eob = end_of_body_invariant [of P, OF app]
  note IH = Suc.IH
  show ?case
  proof (cases tokens)
    case Nil
    with Suc.prems show ?thesis by simp
  next
    case (Cons tok rest0)
    define bc where "bc = (if hanging then clause else None)"
    have bc: "P bc" using Suc.prems(1) init by (simp add: bc_def)
    have cl: "P clause" by (rule Suc.prems(1))
    obtain token tokens1 where ins: "insert_implicit clause hanging tok rest0 = (token, tokens1)"
      by (cases "insert_implicit clause hanging tok rest0")
    have step: "(\<And>x. P x \<Longrightarrow> P (end_of_body bc x))" using eob bc by blast
    show ?thesis
    proof (cases "token_type tok = T_PLUS \<and> (clause = None \<or> is_boolean clause)")
      case True
      with Suc.prems(2) Cons have "parse_tokens n rest0 want clause hanging = Some (Inr (c, rest))"
        by simp
      with cl show ?thesis by (rule IH)
    next
      case False
      with Suc.prems(2) Cons ins bc_def [symmetric]
      have body: "(if token_type token \<notin> set want then Some (Inl unexpected)
            else if token_type token = T_OPEN then
              after_parse
                (parse_tokens n tokens1
                   [T_OPEN, T_PHRASE, T_NOT, T_FIELD, T_TERM, T_NOOP, T_CLOSE] None False)
                (\<lambda>c tokens'. parse_tokens n tokens'
                   [T_OPEN, T_PHRASE, T_NOT, T_FIELD, T_TERM, T_NOOP, T_CLOSE, T_AND, T_OR,
                    T_PLUS, T_CLOSE]
                   (end_of_body bc c) False)
            else if token_type token = T_CLOSE then Some (Inr (clause, tokens1))
            else if token_type token = T_NOOP then
              parse_tokens n tokens1 [T_CLOSE, T_AND, T_OR, T_PLUS, T_CLOSE]
                (end_of_body bc (Some (NoopNode None))) False
            else if token_type token = T_TERM then
              parse_tokens n tokens1 [T_CLOSE, T_AND, T_OR, T_PLUS, T_CLOSE]
                (end_of_body bc (Some (term_clause token))) False
            else if token_type token = T_PHRASE then
              parse_tokens n tokens1 [T_CLOSE, T_AND, T_OR, T_PLUS, T_CLOSE]
                (end_of_body bc (Some (TermNode (token_value token) False True None)))
                False
            else if token_type token \<in> set [T_AND, T_PLUS, T_OR] then
              after_new (operator_clause (token_type token) clause)
                (\<lambda>c. parse_tokens n tokens1
                   [T_OPEN, T_PHRASE, T_NOT, T_FIELD, T_TERM, T_NOOP, T_CLOSE, T_PLUS, T_CLOSE]
                   (end_of_body bc (Some c)) True)
            else if token_type token = T_FIELD then
              (case tokens1 of
                 [] \<Rightarrow> Some (Inl pop_error)
               | next_token # tokens2 \<Rightarrow>
                   after_parse
                     (if token_type next_token = T_OPEN
                      then parse_tokens n tokens2
                             [T_PHRASE, T_NOT, T_TERM, T_NOOP, T_CLOSE, T_PLUS] None False
                      else after_parse
                             (parse_tokens n [next_token] [T_PHRASE, T_TERM, T_NOOP] None False)
                             (\<lambda>c unused. Some (Inr (c, tokens2))))
                     (\<lambda>field_clause tokens'.
                        after_new
                          (new_FieldNode (replace (token_value token) FIELD_PLACEHOLDER [])
                             field_clause)
                          (\<lambda>c. parse_tokens n tokens' [T_CLOSE, T_AND, T_OR, T_PLUS, T_CLOSE]
                                 (end_of_body bc (Some c)) False)))
            else if token_type token = T_NOT then
              (case tokens1 of
                 [] \<Rightarrow> Some (Inl pop_error)
               | next_token # tokens2 \<Rightarrow>
                   after_parse
                     (if token_type next_token = T_OPEN
                      then parse_tokens n tokens2
                             [T_FIELD, T_PHRASE, T_NOT, T_TERM, T_NOOP, T_CLOSE, T_PLUS] None False
                      else if token_type next_token = T_FIELD
                      then parse_tokens n (next_token # tokens2) [T_FIELD] None False
                      else after_parse
                             (parse_tokens n [next_token] [T_PHRASE, T_TERM, T_NOOP, T_FIELD]
                                None False)
                             (\<lambda>c unused. Some (Inr (c, tokens2))))
                     (\<lambda>operand tokens'.
                        after_new (new_NotNode operand)
                          (\<lambda>c. parse_tokens n tokens' [T_CLOSE, T_AND, T_OR, T_PLUS, T_CLOSE]
                                 (end_of_body bc (Some c)) False)))
            else Some (Inl (ParseSyntaxError ''unknown type for token''))) = Some (Inr (c, rest))"
        by (simp add: Let_def del: set_simps)
      have nested: "P x" if "parse_tokens n ts w None False = Some (Inr (x, r))" for ts w x r
        using IH [OF init that] .
      have ap: "P c" if "after_parse r0 k = Some (Inr (c, rest))"
        and "\<And>x ts. r0 = Some (Inr (x, ts)) \<Longrightarrow> k x ts = Some (Inr (c, rest)) \<Longrightarrow> P c" for r0 k
        using that by (auto simp: after_parse_def split: option.splits sum.splits)
      have an: "P c" if "after_new r0 k = Some (Inr (c, rest))"
        and "\<And>x. r0 = Inr x \<Longrightarrow> k x = Some (Inr (c, rest)) \<Longrightarrow> P c" for r0 k
        using that by (auto simp: after_new_def split: sum.splits)
      have cont: "P c" if "parse_tokens n ts w (end_of_body bc x) h = Some (Inr (c, rest))" "P x"
        for ts w x h
        using IH [OF step [OF that(2)] that(1)] .
      show ?thesis
      proof (cases "token_type token")
        case T_OPEN
        with body show ?thesis
          by (auto split: if_splits elim!: ap intro: cont nested)
      next
        case T_CLOSE
        with body cl show ?thesis by (auto split: if_splits)
      next
        case T_PHRASE
        with body show ?thesis by (auto split: if_splits intro: cont phrase)
      next
        case T_AND
        with body show ?thesis by (auto split: if_splits elim!: an intro: cont oper [OF cl])
      next
        case T_OR
        with body show ?thesis by (auto split: if_splits elim!: an intro: cont oper [OF cl])
      next
        case T_NOT
        with body show ?thesis
          apply (simp split: if_splits list.splits)
          apply (auto simp: after_parse_def after_new_def split: if_splits option.splits sum.splits)
          apply (blast intro: cont nott nested)+
          done
      next
        case T_FIELD
        with body show ?thesis
          apply (simp split: if_splits list.splits)
          apply (auto simp: after_parse_def after_new_def split: if_splits option.splits sum.splits)
          apply (blast intro: cont field nested)+
          done
      next
        case T_TERM
        with body show ?thesis by (auto split: if_splits intro: cont trm)
      next
        case T_PLUS
        with body show ?thesis by (auto split: if_splits elim!: an intro: cont oper [OF cl])
      next
        case T_MINUS
        with body show ?thesis by (auto split: if_splits)
      next
        case T_NOOP
        with body show ?thesis by (auto split: if_splits intro: cont noop)
      qed
    qed
  qed
qed

lemma flat_operands_append:
  "flat_operands cls (xs @ ys) = (flat_operands cls xs \<and> flat_operands cls ys)"
proof (induction xs)
  case Nil
  show ?case by simp
next
  case (Cons a xs)
  then show ?case by (cases a) simp_all
qed

lemma flat_boolean_append: "flat b \<Longrightarrow> flat_clause c \<Longrightarrow> flat (boolean_append b c)"
  by (induction b c rule: boolean_append.induct) (auto simp: flat_operands_append)

lemma flat_operator_clause:
  "flat_clause c \<Longrightarrow> operator_clause ty c = Inr x \<Longrightarrow> flat x"
  by (cases c rule: type_of.cases)
     (auto simp: operator_clause_def new_BooleanNode_def Let_def split: if_splits)

lemma flat_parse_tokens:
  assumes "flat_clause clause"
    and "parse_tokens n tokens want clause hanging = Some (Inr (c, rest))"
  shows "flat_clause c"
proof (rule parse_tokens_invariant [where P = flat_clause, OF _ _ _ _ _ _ _ _ assms])
  show "flat_clause None" by simp
  show "flat_clause (Some (NoopNode None))" by simp
  show "flat_clause (Some (term_clause tok))" for tok by (simp add: term_clause_def)
  show "flat_clause (Some (TermNode v False True None))" for v by simp
  show "flat_clause (Some x)" if "flat_clause c" "operator_clause ty c = Inr x" for ty c x
    using flat_operator_clause [OF that] by simp
  show "flat_clause (Some x)" if "flat_clause c" "new_FieldNode f c = Inr x" for f c x
    using that by (auto simp: new_FieldNode_def split: option.splits)
  show "flat_clause (Some x)" if "flat_clause c" "new_NotNode c = Inr x" for c x
    using that by (auto simp: new_NotNode_def split: option.splits)
  show "flat_clause (Some (boolean_append b c))" if "flat_clause (Some b)" "flat_clause c" for b c
    using that by (simp add: flat_boolean_append)
qed

subsection \<open>Lemmas on the filter\<close>

lemma filtered_by_set_filtered_by [simp]:
  "filtered_by_function (set_filtered_by_function v n) = v"
  by (cases n) simp_all

lemma has_not_set_filtered_by [simp]:
  "has_not (set_filtered_by_function v n) = has_not n"
  by (cases n) simp_all

lemma filter_tree_cases:
  assumes "filter_tree f t = Inr (Some t')"
  shows "(filtered_by_function t = Some (fn_id f) \<and> t' = t)
       \<or> (filtered_by_function t \<noteq> Some (fn_id f) \<and> \<not> fn_call f t
          \<and> (\<exists>u. filter_node_children f t = Inr (Some u)
                 \<and> t' = set_filtered_by_function (Some (fn_id f)) u))"
  using assms by (auto split: if_splits sum.splits option.splits)

lemma re_filter_simps [simp]:
  "fn_id re_filter = Node_is_field_or_noop_or_not"
  "fn_call re_filter = node_is_field_or_noop_or_not"
  by (simp_all add: re_filter_def)

lemma unfiltered_memo: "unfiltered n \<Longrightarrow> filtered_by_function n = None"
  by (cases n) simp_all

lemma re_filter_removes_not:
  "(f = re_filter \<longrightarrow> unfiltered n \<longrightarrow> (\<forall>t'. filter_tree f n = Inr (Some t') \<longrightarrow> \<not> has_not t'))"
  "(f = re_filter \<longrightarrow> unfiltered n \<longrightarrow> \<not> node_is_field_or_noop_or_not n \<longrightarrow>
      (\<forall>t'. filter_node_children f n = Inr (Some t') \<longrightarrow> \<not> has_not t'))"
  "(f = re_filter \<longrightarrow> unfiltered_operands ops \<longrightarrow>
      (\<forall>ys. filter_operands f ops = Inr ys \<longrightarrow> \<not> has_not_operands ys))"
proof (induction f n and f n and f ops rule: filter_tree_filter_node_children_filter_operands.induct)
  case (1 f n)
  show ?case
  proof (intro impI allI)
    fix t'
    assume f: "f = re_filter" and u: "unfiltered n" and r: "filter_tree f n = Inr (Some t')"
    from unfiltered_memo [OF u] f have m: "filtered_by_function n \<noteq> Some (fn_id f)" by simp
    from filter_tree_cases [OF r] m obtain v where
      nf: "\<not> fn_call f n" and v: "filter_node_children f n = Inr (Some v)"
      and t': "t' = set_filtered_by_function (Some (fn_id f)) v" by blast
    from "1.IH" m nf f u v have "\<not> has_not v" by simp
    with t' show "\<not> has_not t'" by simp
  qed
next
  case (3 f ops m)
  then show ?case
    by (auto simp: new_BooleanNode_def split: sum.splits if_splits)
next
  case (4 f ops m)
  then show ?case
    by (auto simp: new_BooleanNode_def split: sum.splits if_splits)
next
  case (6 f name x m)
  then show ?case
    by (auto simp: new_FieldNode_def split: sum.splits option.splits)
next
  case (10 f x xs)
  then show ?case
    by (auto split: sum.splits option.splits)
qed auto


lemma unfiltered_operands_append:
  "unfiltered_operands (xs @ ys) = (unfiltered_operands xs \<and> unfiltered_operands ys)"
proof (induction xs)
  case Nil
  show ?case by simp
next
  case (Cons a xs)
  then show ?case by (cases a) simp_all
qed

lemma unfiltered_boolean_append:
  "unfiltered b \<Longrightarrow> unfiltered_clause c \<Longrightarrow> unfiltered (boolean_append b c)"
  by (induction b c rule: boolean_append.induct) (auto simp: unfiltered_operands_append)

lemma unfiltered_parse_tokens:
  assumes "unfiltered_clause clause"
    and "parse_tokens n tokens want clause hanging = Some (Inr (c, rest))"
  shows "unfiltered_clause c"
proof (rule parse_tokens_invariant [where P = unfiltered_clause, OF _ _ _ _ _ _ _ _ assms])
  show "unfiltered_clause None" by simp
  show "unfiltered_clause (Some (NoopNode None))" by simp
  show "unfiltered_clause (Some (term_clause tok))" for tok by (simp add: term_clause_def)
  show "unfiltered_clause (Some (TermNode v False True None))" for v by simp
  show "unfiltered_clause (Some x)" if "unfiltered_clause c" "operator_clause ty c = Inr x"
    for ty c x
    using that
    by (cases c rule: type_of.cases)
       (auto simp: operator_clause_def new_BooleanNode_def Let_def split: if_splits)
  show "unfiltered_clause (Some x)" if "unfiltered_clause c" "new_FieldNode f c = Inr x" for f c x
    using that by (auto simp: new_FieldNode_def split: option.splits)
  show "unfiltered_clause (Some x)" if "unfiltered_clause c" "new_NotNode c = Inr x" for c x
    using that by (auto simp: new_NotNode_def split: option.splits)
  show "unfiltered_clause (Some (boolean_append b c))"
    if "unfiltered_clause (Some b)" "unfiltered_clause c" for b c
    using that by (simp add: unfiltered_boolean_append)
qed

lemma unfiltered_parse: "parse q = Some (Inr (Some t)) \<Longrightarrow> unfiltered t"
proof -
  assume "parse q = Some (Inr (Some t))"
  then obtain ts where "parse_token_list ts = Some (Inr (Some t))"
    by (auto simp: parse_def split: sum.splits)
  then obtain rest where
    "parse_tokens (parse_fuel ts) ts default_want_type None False = Some (Inr (Some t, rest))"
    by (auto simp: parse_token_list_def split: option.splits sum.splits)
  from unfiltered_parse_tokens [OF _ this] show "unfiltered t" by simp
qed

lemma re_filter_negated_only:
  "(f = re_filter \<longrightarrow> unfiltered n \<longrightarrow> negated_only n \<longrightarrow> filter_tree f n = Inr None)"
  "(f = re_filter \<longrightarrow> unfiltered n \<longrightarrow> negated_only n \<longrightarrow> \<not> node_is_field_or_noop_or_not n \<longrightarrow>
      filter_node_children f n = Inr None)"
  "(f = re_filter \<longrightarrow> unfiltered_operands ops \<longrightarrow> negated_only_operands ops \<longrightarrow>
      filter_operands f ops = Inr [])"
proof (induction f n and f n and f ops rule: filter_tree_filter_node_children_filter_operands.induct)
  case (1 f n)
  show ?case
  proof (intro impI)
    assume f: "f = re_filter" and u: "unfiltered n" and r: "negated_only n"
    from unfiltered_memo [OF u] f have m: "filtered_by_function n \<noteq> Some (fn_id f)" by simp
    show "filter_tree f n = Inr None"
    proof (cases "fn_call f n")
      case True
      with m show ?thesis by simp
    next
      case False
      with "1.IH" m f u r have "filter_node_children f n = Inr None" by simp
      with m False show ?thesis by simp
    qed
  qed
qed auto

lemma unfiltered_parse_token_list:
  "parse_token_list ts = Some (Inr (Some t)) \<Longrightarrow> unfiltered t"
proof -
  assume "parse_token_list ts = Some (Inr (Some t))"
  then obtain rest where
    "parse_tokens (parse_fuel ts) ts default_want_type None False = Some (Inr (Some t, rest))"
    by (auto simp: parse_token_list_def split: option.splits sum.splits)
  from unfiltered_parse_tokens [OF _ this] show "unfiltered t" by simp
qed

lemma re_negated_only: "unfiltered t \<Longrightarrow> negated_only t \<Longrightarrow> re t = Inl empty_query"
  using re_filter_negated_only(1) [of re_filter t] by (simp add: re_def)

subsection \<open>Lemmas on the emitters\<close>

lemma shlex_quote_run:
  "q \<notin> set body \<Longrightarrow> (q = CHR 0x22 \<longrightarrow> CHR 0x5C \<notin> set body)
   \<Longrightarrow> shlex_run (Quote q) tok True (body @ [q]) = Inr [tok @ body]"
  by (induction body arbitrary: tok) auto

lemma shlex_first_quoted:
  assumes "quote_char q" "q \<notin> set body" "q = CHR 0x22 \<longrightarrow> CHR 0x5C \<notin> set body"
  shows "shlex_first (q # body @ [q]) = Inr body"
proof -
  from assms(1) have "\<not> shlex_space q" "q \<noteq> CHR 0x5C"
    by (auto simp: quote_char_def shlex_space_def)
  with assms(1) have "shlex_split (q # body @ [q]) = shlex_run (Quote q) [] True (body @ [q])"
    by (simp add: shlex_split_def)
  with shlex_quote_run [OF assms(2,3), of "[]"] show ?thesis
    by (simp add: shlex_first_def)
qed

lemma get_tsquery_plain_terms:
  "get_tsquery_operands (map (\<lambda>w. Some (TermNode w False False None)) ws) = Inr ws"
  by (induction ws) simp_all

lemma phrase_as_and_node:
  "get_tsquery (AndNode (map (\<lambda>w. Some (TermNode w False False None)) ws) m)
     = Inr (boolean_tsquery ''&'' ws)"
  by (simp add: get_tsquery_plain_terms)

lemma filter_split_nonword:
  "filter (\<lambda>t. t \<noteq> []) (split_nonword False p s) =
     (if p @ takeWhile word_char s = [] then [] else [p @ takeWhile word_char s])
     @ filter (\<lambda>t. t \<noteq> []) (split_nonword True [] (dropWhile word_char s))"
proof (induction s arbitrary: p)
  case Nil
  show ?case by simp
next
  case (Cons c cs)
  show ?case
  proof (cases "word_char c")
    case True
    with Cons [of "p @ [c]"] show ?thesis by simp
  next
    case False
    then show ?thesis by simp
  qed
qed

lemma filter_split_nonword_run:
  "filter (\<lambda>t. t \<noteq> []) (split_nonword True [] s) = phrase_words s"
  by (cases s) (simp_all add: phrase_words_def re_split_nonword_def)

lemma phrase_words_Nil: "phrase_words [] = []"
  by (simp add: phrase_words_def re_split_nonword_def)

lemma phrase_words_nonword: "\<not> word_char c \<Longrightarrow> phrase_words (c # s) = phrase_words s"
  using filter_split_nonword_run [of s] by (simp add: phrase_words_def re_split_nonword_def)

lemma phrase_words_word:
  "word_char c \<Longrightarrow>
     phrase_words (c # s) = (c # takeWhile word_char s) # phrase_words (dropWhile word_char s)"
  using filter_split_nonword [of "[c]" s] filter_split_nonword_run [of "dropWhile word_char s"]
  by (simp add: phrase_words_def re_split_nonword_def)

lemma shlex_quote_open:
  "q \<notin> set body \<Longrightarrow> (q = CHR 0x22 \<longrightarrow> CHR 0x5C \<notin> set body)
   \<Longrightarrow> shlex_run (Quote q) tok quoted body = Inl (ValueError ''No closing quotation'')"
  by (induction body arbitrary: tok) auto

lemma shlex_first_open:
  assumes "quote_char q" "q \<notin> set body" "q = CHR 0x22 \<longrightarrow> CHR 0x5C \<notin> set body"
  shows "shlex_first (q # body) = Inl (ValueError ''No closing quotation'')"
proof -
  from assms(1) have "\<not> shlex_space q" "q \<noteq> CHR 0x5C"
    by (auto simp: quote_char_def shlex_space_def)
  with assms(1) have "shlex_split (q # body) = shlex_run (Quote q) [] True body"
    by (simp add: shlex_split_def)
  with shlex_quote_open [OF assms(2,3), of "[]" True] show ?thesis
    by (simp add: shlex_first_def)
qed

subsection \<open>The fuel of the parser is enough\<close>

lemma returns_within_mono: "returns_within m r \<Longrightarrow> m \<le> m' \<Longrightarrow> returns_within m' r"
  by (auto simp: returns_within_def split: option.splits sum.splits)

lemma returns_within_error [simp]: "returns_within m (Some (Inl e))"
  by (simp add: returns_within_def)

lemma returns_within_value [simp]: "returns_within m (Some (Inr (c, ts))) = (length ts \<le> m)"
  by (simp add: returns_within_def)

lemma returns_within_after_parse:
  assumes r0: "returns_within m r0"
    and k: "\<And>c ts. length ts \<le> m \<Longrightarrow> returns_within m' (k c ts)"
  shows "returns_within m' (after_parse r0 k)"
proof (cases r0)
  case None
  with r0 show ?thesis by (simp add: returns_within_def)
next
  case (Some x)
  show ?thesis
  proof (cases x)
    case (Inl e)
    with Some show ?thesis by (simp add: after_parse_def)
  next
    case (Inr y)
    obtain c ts where y: "y = (c, ts)" by (cases y)
    with Some Inr r0 have "length ts \<le> m" by simp
    from k [OF this] Some Inr y show ?thesis by (simp add: after_parse_def)
  qed
qed

lemma returns_within_after_new:
  assumes "\<And>x. returns_within m (k x)"
  shows "returns_within m (after_new r0 k)"
  using assms by (cases r0) (simp_all add: after_new_def)

lemma insert_implicit_length:
  assumes "insert_implicit clause hanging tok rest0 = (token, tokens1)"
  shows "(tokens1 = rest0 \<and> token = tok)
       \<or> (tokens1 = tok # rest0 \<and> \<not> hanging \<and> token_type token \<in> {T_OR, T_AND})"
  using assms by (auto simp: insert_implicit_def split: if_splits)

lemma parse_tokens_fuel:
  "2 * length tokens + (if hanging then 1 else 2) \<le> n
   \<Longrightarrow> returns_within (length tokens) (parse_tokens n tokens want clause hanging)"
proof (induction n arbitrary: tokens want clause hanging)
  case 0
  then show ?case by (simp split: if_splits)
next
  case (Suc n)
  note IH = Suc.IH
  show ?case
  proof (cases tokens)
    case Nil
    then show ?thesis by simp
  next
    case (Cons tok rest0)
    define L where "L = length rest0"
    have len: "length tokens = Suc L" using Cons by (simp add: L_def)
    have bound: "2 * L + 2 + (if hanging then 1 else 2) \<le> Suc n"
      using Suc.prems Cons by (simp add: L_def)
    then have n2: "2 * L + 2 \<le> n" by (simp split: if_splits)
    have nest: "returns_within L (parse_tokens n ts w c False)"
      if "length ts \<le> L" for ts w c
    proof -
      from that n2 have "2 * length ts + (if False then 1 else 2) \<le> n" by simp
      from IH [OF this] have "returns_within (length ts) (parse_tokens n ts w c False)" .
      then show ?thesis using that by (rule returns_within_mono)
    qed
    have cont: "returns_within (Suc L) (parse_tokens n ts w c False)"
      if "length ts \<le> L" for ts w c
      using nest [OF that] by (rule returns_within_mono) simp
    obtain token tokens1 where ins: "insert_implicit clause hanging tok rest0 = (token, tokens1)"
      by (cases "insert_implicit clause hanging tok rest0")
    show ?thesis
    proof (cases "token_type tok = T_PLUS \<and> (clause = None \<or> is_boolean clause)")
      case True
      from bound have "2 * length rest0 + (if hanging then 1 else 2) \<le> n"
        by (simp add: L_def split: if_splits)
      from IH [OF this]
      have "returns_within (length rest0) (parse_tokens n rest0 want clause hanging)" .
      then have "returns_within (Suc L) (parse_tokens n rest0 want clause hanging)"
        by (rule returns_within_mono) (simp add: L_def)
      with True Cons show ?thesis by (simp add: L_def)
    next
      case False
      from insert_implicit_length [OF ins] show ?thesis
      proof
        assume a: "tokens1 = rest0 \<and> token = tok"
        have hang: "returns_within (Suc L) (parse_tokens n rest0 w c True)" for w c
        proof -
          from n2 have "2 * length rest0 + (if True then 1 else 2) \<le> n" by (simp add: L_def)
          from IH [OF this] have "returns_within (length rest0) (parse_tokens n rest0 w c True)" .
          then show ?thesis by (rule returns_within_mono) (simp add: L_def)
        qed
        have single: "returns_within L (after_parse (parse_tokens n [x] w None False)
                        (\<lambda>c unused. Some (Inr (c, ts))))"
          if "rest0 = x # ts" for x w ts
        proof -
          from that n2 have "2 * length [x] + (if False then 1 else 2) \<le> n" by (simp add: L_def)
          from IH [OF this] have "returns_within (length [x]) (parse_tokens n [x] w None False)" .
          then show ?thesis
            by (rule returns_within_after_parse) (simp add: that L_def)
        qed
        have group: "returns_within L (parse_tokens n ts w None False)"
          if "rest0 = x # ts" for x w ts
          by (rule nest) (simp add: that L_def)
        have whole: "returns_within L (parse_tokens n rest0 w None False)" for w
          by (rule nest) (simp add: L_def)
        have whole': "returns_within L (parse_tokens n (x # ts) w None False)"
          if "rest0 = x # ts" for x ts w
          using whole [of w] that by simp
        have fin: "returns_within (Suc L) (after_new r (\<lambda>c. parse_tokens n ts w (g c) False))"
          if "length ts \<le> L" for r ts w g
          by (rule returns_within_after_new) (rule cont [OF that])
        note nplus = False
        from a ins have ins': "insert_implicit clause hanging tok rest0 = (tok, rest0)" by simp
        have body: "parse_tokens (Suc n) tokens want clause hanging =
           (if token_type tok \<notin> set want then Some (Inl unexpected)
            else if token_type tok = T_OPEN then
              after_parse
                (parse_tokens n rest0
                   [T_OPEN, T_PHRASE, T_NOT, T_FIELD, T_TERM, T_NOOP, T_CLOSE] None False)
                (\<lambda>c tokens'. parse_tokens n tokens'
                   [T_OPEN, T_PHRASE, T_NOT, T_FIELD, T_TERM, T_NOOP, T_CLOSE, T_AND, T_OR,
                    T_PLUS, T_CLOSE]
                   (end_of_body (if hanging then clause else None) c) False)
            else if token_type tok = T_CLOSE then Some (Inr (clause, rest0))
            else if token_type tok = T_NOOP then
              parse_tokens n rest0 [T_CLOSE, T_AND, T_OR, T_PLUS, T_CLOSE]
                (end_of_body (if hanging then clause else None) (Some (NoopNode None))) False
            else if token_type tok = T_TERM then
              parse_tokens n rest0 [T_CLOSE, T_AND, T_OR, T_PLUS, T_CLOSE]
                (end_of_body (if hanging then clause else None) (Some (term_clause tok))) False
            else if token_type tok = T_PHRASE then
              parse_tokens n rest0 [T_CLOSE, T_AND, T_OR, T_PLUS, T_CLOSE]
                (end_of_body (if hanging then clause else None)
                   (Some (TermNode (token_value tok) False True None)))
                False
            else if token_type tok \<in> set [T_AND, T_PLUS, T_OR] then
              after_new (operator_clause (token_type tok) clause)
                (\<lambda>c. parse_tokens n rest0
                   [T_OPEN, T_PHRASE, T_NOT, T_FIELD, T_TERM, T_NOOP, T_CLOSE, T_PLUS, T_CLOSE]
                   (end_of_body (if hanging then clause else None) (Some c)) True)
            else if token_type tok = T_FIELD then
              (case rest0 of
                 [] \<Rightarrow> Some (Inl pop_error)
               | next_token # tokens2 \<Rightarrow>
                   after_parse
                     (if token_type next_token = T_OPEN
                      then parse_tokens n tokens2
                             [T_PHRASE, T_NOT, T_TERM, T_NOOP, T_CLOSE, T_PLUS] None False
                      else after_parse
                             (parse_tokens n [next_token] [T_PHRASE, T_TERM, T_NOOP] None False)
                             (\<lambda>c unused. Some (Inr (c, tokens2))))
                     (\<lambda>field_clause tokens'.
                        after_new
                          (new_FieldNode (replace (token_value tok) FIELD_PLACEHOLDER [])
                             field_clause)
                          (\<lambda>c. parse_tokens n tokens' [T_CLOSE, T_AND, T_OR, T_PLUS, T_CLOSE]
                                 (end_of_body (if hanging then clause else None) (Some c))
                                 False)))
            else if token_type tok = T_NOT then
              (case rest0 of
                 [] \<Rightarrow> Some (Inl pop_error)
               | next_token # tokens2 \<Rightarrow>
                   after_parse
                     (if token_type next_token = T_OPEN
                      then parse_tokens n tokens2
                             [T_FIELD, T_PHRASE, T_NOT, T_TERM, T_NOOP, T_CLOSE, T_PLUS] None False
                      else if token_type next_token = T_FIELD
                      then parse_tokens n (next_token # tokens2) [T_FIELD] None False
                      else after_parse
                             (parse_tokens n [next_token] [T_PHRASE, T_TERM, T_NOOP, T_FIELD]
                                None False)
                             (\<lambda>c unused. Some (Inr (c, tokens2))))
                     (\<lambda>operand tokens'.
                        after_new (new_NotNode operand)
                          (\<lambda>c. parse_tokens n tokens' [T_CLOSE, T_AND, T_OR, T_PLUS, T_CLOSE]
                                 (end_of_body (if hanging then clause else None) (Some c))
                                 False)))
            else Some (Inl (ParseSyntaxError ''unknown type for token'')))"
          unfolding Cons by (simp add: nplus ins' Let_def del: set_simps)
        show ?thesis
          unfolding body len
          by (cases "token_type tok")
             (auto intro!: returns_within_after_parse [where m = L] fin hang cont single group
                whole whole' returns_within_after_new
              simp: L_def [symmetric] split: list.splits)
      next
        assume a: "tokens1 = tok # rest0 \<and> \<not> hanging \<and> token_type token \<in> {T_OR, T_AND}"
        then have h: "\<not> hanging" by simp
        with bound have "2 * length (tok # rest0) + (if True then 1 else 2) \<le> n"
          by (simp add: L_def)
        from IH [OF this]
        have c: "returns_within (Suc (length rest0)) (parse_tokens n (tok # rest0) w c True)"
          for w c
          by simp
        from a False Cons ins show ?thesis
          by (auto simp: Let_def intro!: returns_within_after_new c)
      qed
    qed
  qed
qed

lemma parse_token_list_returns: "parse_token_list tokens \<noteq> None"
proof -
  have "2 * length tokens + (if False then 1 else 2) \<le> parse_fuel tokens"
    by (simp add: parse_fuel_def)
  from parse_tokens_fuel [OF this, of default_want_type None]
  show ?thesis
    by (auto simp: parse_token_list_def returns_within_def split: option.splits sum.splits)
qed

lemma parse_returns: "parse q \<noteq> None"
  using parse_token_list_returns by (auto simp: parse_def split: sum.splits)

subsection \<open>What the filter writes\<close>

text \<open>
  The filter on the heap allocates objects and writes \<open>parent\<close> and \<open>filtered_by_function\<close> to
  objects it has allocated. For a tree that records no filter function, every node it returns
  is one it has allocated, so the store after the call is the store before it with the new
  objects after it (\<open>heap_filter_builds\<close>). A tree reads everything of an object but \<open>parent\<close>,
  so it is still there in a store that preserves its objects up to \<open>parent\<close>.
\<close>

lemma same_object_refl [simp]: "same_object c c"
  by (cases c) simp_all

lemma same_object_trans: "same_object a b \<Longrightarrow> same_object b c \<Longrightarrow> same_object a c"
  by (cases a; cases b; cases c) simp_all

lemma preserved_iff:
  "preserved m h h' =
     (m \<le> length h \<and> length h \<le> length h' \<and> (\<forall>i<m. same_object (h ! i) (h' ! i)))"
  by (auto simp: preserved_def list_all2_conv_all_nth)

lemma preserved_refl: "m \<le> length h \<Longrightarrow> preserved m h h"
  by (simp add: preserved_iff)

lemma preserved_trans: "preserved m h h1 \<Longrightarrow> preserved m h1 h2 \<Longrightarrow> preserved m h h2"
  by (auto simp: preserved_iff intro: same_object_trans)

lemma preserved_less: "preserved m h h' \<Longrightarrow> k \<le> m \<Longrightarrow> preserved k h h'"
  by (auto simp: preserved_iff)

lemma preserved_length: "preserved m h h' \<Longrightarrow> length h \<le> length h'"
  by (simp add: preserved_def)

lemma length_set_parent [simp]: "length (set_parent h a p) = length h"
  by (simp add: set_parent_def split: option.splits cell.splits)

lemma length_set_memo [simp]: "length (set_memo h a f) = length h"
  by (simp add: set_memo_def split: option.splits cell.splits)

lemma length_set_parents [simp]: "length (set_parents h xs p) = length h"
  by (induction h xs p rule: set_parents.induct) simp_all

lemma preserved_set_parent: "m \<le> length h \<Longrightarrow> preserved m h (set_parent h a p)"
  by (auto simp: preserved_iff set_parent_def lookup_def nth_list_update
      split: option.splits cell.splits if_splits)

lemma preserved_set_parents: "m \<le> length h \<Longrightarrow> preserved m h (set_parents h xs p)"
proof (induction h xs p rule: set_parents.induct)
  case (2 h a xs p)
  have "preserved m h (set_parent h a p)" using 2 by (simp add: preserved_set_parent)
  moreover have "preserved m (set_parent h a p) (set_parents (set_parent h a p) xs p)"
    using 2 by simp
  ultimately show ?case by (auto intro: preserved_trans)
qed (simp_all add: preserved_refl)

lemma preserved_set_memo: "m \<le> length h \<Longrightarrow> m \<le> a \<Longrightarrow> preserved m h (set_memo h a f)"
  by (auto simp: preserved_iff set_memo_def lookup_def nth_list_update
      split: option.splits cell.splits if_splits)

lemma preserved_append: "m \<le> length h \<Longrightarrow> preserved m h (h @ cs)"
  by (auto simp: preserved_iff nth_append)

lemma extends_iff: "extends h h' = (\<exists>cs. h' = h @ cs)"
proof
  assume "extends h h'"
  then have "h' = h @ drop (length h) h'"
    by (metis append_take_drop_id extends_def)
  then show "\<exists>cs. h' = h @ cs" ..
next
  assume "\<exists>cs. h' = h @ cs"
  then show "extends h h'" by (auto simp: extends_def)
qed

lemma extends_refl [simp]: "extends h h"
  by (simp add: extends_def)

lemma extends_trans: "extends h h1 \<Longrightarrow> extends h1 h2 \<Longrightarrow> extends h h2"
  by (auto simp: extends_iff)

lemma extends_length: "extends h h' \<Longrightarrow> length h \<le> length h'"
  by (auto simp: extends_iff)

lemma extends_preserved: "extends h h' \<Longrightarrow> preserved (length h) h h'"
  by (auto simp: extends_iff preserved_iff nth_append)

lemma extends_append [simp]: "extends h (h @ cs)"
  by (simp add: extends_def)

lemma extends_append_trans: "extends h h1 \<Longrightarrow> extends h (h1 @ cs)"
  by (auto simp: extends_iff)

lemma extends_set_parent: "extends h h1 \<Longrightarrow> length h \<le> a \<Longrightarrow> extends h (set_parent h1 a p)"
  by (auto simp: extends_def set_parent_def split: option.splits cell.splits)

lemma extends_set_memo: "extends h h1 \<Longrightarrow> length h \<le> a \<Longrightarrow> extends h (set_memo h1 a f)"
  by (auto simp: extends_def set_memo_def split: option.splits cell.splits)

lemma extends_set_parents:
  "extends h h1 \<Longrightarrow> \<forall>y \<in> set ys. length h \<le> y \<Longrightarrow> extends h (set_parents h1 ys p)"
  by (induction h1 ys p rule: set_parents.induct) (auto simp: extends_set_parent)

lemma lookup_less: "lookup h a = Some c \<Longrightarrow> a < length h"
  by (simp add: lookup_def split: if_splits)

lemma lookup_extends: "lookup h a = Some c \<Longrightarrow> extends h h' \<Longrightarrow> lookup h' a = Some c"
  by (auto simp: extends_iff lookup_def nth_append split: if_splits)

lemma lookup_preserved_node:
  "preserved m h h' \<Longrightarrow> lookup h a = Some (NodeCell nd par memo) \<Longrightarrow> a < m
   \<Longrightarrow> \<exists>par'. lookup h' a = Some (NodeCell nd par' memo)"
proof -
  assume p: "preserved m h h'" and l: "lookup h a = Some (NodeCell nd par memo)" and a: "a < m"
  from p a have s: "same_object (h ! a) (h' ! a)" and b: "a < length h" "a < length h'"
    by (auto simp: preserved_iff)
  from l b have "h ! a = NodeCell nd par memo" by (simp add: lookup_def)
  with s obtain par' where "h' ! a = NodeCell nd par' memo" by (cases "h' ! a") auto
  with b show ?thesis by (simp add: lookup_def)
qed

lemma lookup_preserved_list:
  "preserved m h h' \<Longrightarrow> lookup h a = Some (ListCell xs) \<Longrightarrow> a < m
   \<Longrightarrow> lookup h' a = Some (ListCell xs)"
proof -
  assume p: "preserved m h h'" and l: "lookup h a = Some (ListCell xs)" and a: "a < m"
  from p a have s: "same_object (h ! a) (h' ! a)" and b: "a < length h" "a < length h'"
    by (auto simp: preserved_iff)
  from l b have "h ! a = ListCell xs" by (simp add: lookup_def)
  with s have "h' ! a = ListCell xs" by (cases "h' ! a") auto
  with b show ?thesis by (simp add: lookup_def)
qed

lemma represents_preserved:
  "represents k h t a \<Longrightarrow> preserved (length h) h h' \<Longrightarrow> represents k h' t a"
  "represents_operands k h ops xs \<Longrightarrow> preserved (length h) h h' \<Longrightarrow> represents_operands k h' ops xs"
proof (induction k h t a and k h ops xs rule: represents_represents_operands.induct)
  case (1 k h t w p m a)
  then show ?case by (auto dest: lookup_preserved_node lookup_less)
next
  case (2 k h ops m a)
  then show ?case
    by (auto dest: lookup_less) (meson lookup_less lookup_preserved_list lookup_preserved_node)
next
  case (3 k h ops m a)
  then show ?case
    by (auto dest: lookup_less) (meson lookup_less lookup_preserved_list lookup_preserved_node)
next
  case (4 k h x m a)
  then show ?case
    by (auto dest: lookup_less) (meson lookup_less lookup_preserved_node)
next
  case (5 k h name x m a)
  then show ?case
    by (auto dest: lookup_less) (meson lookup_less lookup_preserved_node)
next
  case (6 k h m a)
  then show ?case by (auto dest: lookup_preserved_node lookup_less)
qed auto

lemma represents_extends:
  "represents k h t a \<Longrightarrow> extends h h' \<Longrightarrow> represents k h' t a"
  "represents_operands k h ops xs \<Longrightarrow> extends h h' \<Longrightarrow> represents_operands k h' ops xs"
  by (auto intro: represents_preserved extends_preserved)

lemma represents_bound:
  "represents k h t a \<Longrightarrow> k' \<le> k \<Longrightarrow> represents k' h t a"
  "represents_operands k h ops xs \<Longrightarrow> k' \<le> k \<Longrightarrow> represents_operands k' h ops xs"
  by (induction k h t a and k h ops xs rule: represents_represents_operands.induct) auto

lemma represents_less: "represents k h t a \<Longrightarrow> k \<le> a \<and> a < length h"
  by (cases t) (auto dest: lookup_less)

lemma represents_memo:
  "represents k h t a \<Longrightarrow> \<exists>nd par. lookup h a = Some (NodeCell nd par (filtered_by_function t))"
  by (cases t) auto

lemma represents_operands_less:
  "represents_operands k h ts (map Some ys) \<Longrightarrow> y \<in> set ys \<Longrightarrow> k \<le> y \<and> y < length h"
proof (induction ys arbitrary: ts)
  case Nil
  then show ?case by simp
next
  case (Cons z zs)
  show ?case
  proof (cases ts)
    case Nil
    with Cons.prems show ?thesis by simp
  next
    case (Cons u us)
    with Cons.prems Cons.IH [of us] show ?thesis
      by (cases u) (auto dest: represents_less)
  qed
qed

lemma represents_operands_append:
  "represents_operands k h ts xs \<Longrightarrow> represents_operands k h us ys
   \<Longrightarrow> represents_operands k h (ts @ us) (xs @ ys)"
proof (induction ts arbitrary: xs)
  case Nil
  then show ?case by simp
next
  case (Cons t ts)
  then show ?case by (cases t) auto
qed


lemma lookup_append_new: "lookup (h @ [c]) (length h) = Some c"
  by (simp add: lookup_def)

lemma lookup_append_new2:
  "lookup (h @ [c, d]) (length h) = Some c" "lookup (h @ [c, d]) (Suc (length h)) = Some d"
  by (simp_all add: lookup_def nth_append)

lemma lookup_set_parent_node:
  "lookup h b = Some (NodeCell nd par m) \<Longrightarrow> \<exists>par'. lookup (set_parent h a p) b = Some (NodeCell nd par' m)"
  by (auto simp: set_parent_def lookup_def nth_list_update split: option.splits cell.splits if_splits)

lemma lookup_set_parent_list:
  "lookup h b = Some (ListCell xs) \<Longrightarrow> lookup (set_parent h a p) b = Some (ListCell xs)"
  by (auto simp: set_parent_def lookup_def nth_list_update split: option.splits cell.splits if_splits)

lemma lookup_set_parents_node:
  "lookup h b = Some (NodeCell nd par m) \<Longrightarrow> \<exists>par'. lookup (set_parents h ys p) b = Some (NodeCell nd par' m)"
proof (induction h ys p arbitrary: par rule: set_parents.induct)
  case (1 h p)
  then show ?case by simp
next
  case (2 h a xs p)
  from lookup_set_parent_node [OF "2.prems"] obtain par' where
    "lookup (set_parent h a p) b = Some (NodeCell nd par' m)" by blast
  from "2.IH" [OF this] show ?case by simp
qed

lemma lookup_set_parents_list:
  "lookup h b = Some (ListCell xs) \<Longrightarrow> lookup (set_parents h ys p) b = Some (ListCell xs)"
  by (induction h ys p rule: set_parents.induct) (auto simp: lookup_set_parent_list)

lemma lookup_set_memo_node:
  "lookup h b = Some (NodeCell nd par m) \<Longrightarrow> lookup (set_memo h b f) b = Some (NodeCell nd par (Some f))"
  by (auto simp: set_memo_def lookup_def split: if_splits)

lemma lookup_set_memo_list:
  "lookup h b = Some (ListCell xs) \<Longrightarrow> lookup (set_memo h a f) b = Some (ListCell xs)"
  by (auto simp: set_memo_def lookup_def nth_list_update split: option.splits cell.splits if_splits)

text \<open>The new objects that the filter builds are the roots of trees.\<close>

lemma represents_new_leaf:
  assumes "k \<le> length h" "lookup h1 (length h) = Some (NodeCell nd par None)"
  shows "nd = HTerm t w p \<Longrightarrow> represents k (set_memo h1 (length h) f) (TermNode t w p (Some f)) (length h)"
    and "nd = HNoop \<Longrightarrow> represents k (set_memo h1 (length h) f) (NoopNode (Some f)) (length h)"
  using assms lookup_set_memo_node [OF assms(2), of f] by auto

lemma represents_new_unary:
  assumes r: "represents k h1 t1 y"
    and h3: "h3 = set_parent (h1 @ [NodeCell nd None None]) y (length h1)"
    and h4: "h4 = set_memo h3 (length h1) f"
  shows "nd = HNot y \<Longrightarrow> represents k h3 (NotNode t1 None) (length h1)"
    and "nd = HNot y \<Longrightarrow> represents k h4 (NotNode t1 (Some f)) (length h1)"
    and "nd = HField name y \<Longrightarrow> represents k h3 (FieldNode name t1 None) (length h1)"
    and "nd = HField name y \<Longrightarrow> represents k h4 (FieldNode name t1 (Some f)) (length h1)"
proof -
  from represents_less [OF r] have y: "k \<le> y" "y < length h1" by auto
  have p1: "preserved (length h1) h1 (h1 @ [NodeCell nd None None])"
    by (rule preserved_append) simp
  have p2: "preserved (length h1) (h1 @ [NodeCell nd None None]) h3"
    unfolding h3 by (rule preserved_set_parent) simp
  have p3: "preserved (length h1) h3 h4"
    unfolding h4 by (rule preserved_set_memo) (simp_all add: h3)
  from p1 p2 have q3: "preserved (length h1) h1 h3" by (rule preserved_trans)
  from q3 p3 have q4: "preserved (length h1) h1 h4" by (rule preserved_trans)
  from r q3 have r3: "represents k h3 t1 y" by (rule represents_preserved)
  from r q4 have r4: "represents k h4 t1 y" by (rule represents_preserved)
  from lookup_set_parent_node [OF lookup_append_new, of h1 nd None None y "length h1"]
  obtain par where l3: "lookup h3 (length h1) = Some (NodeCell nd par None)"
    unfolding h3 by blast
  from lookup_set_memo_node [OF l3, of f]
  have l4: "lookup h4 (length h1) = Some (NodeCell nd par (Some f))" unfolding h4 .
  from y have b: "k \<le> length h1" by simp
  show "nd = HNot y \<Longrightarrow> represents k h3 (NotNode t1 None) (length h1)"
    using b l3 r3 by auto
  show "nd = HNot y \<Longrightarrow> represents k h4 (NotNode t1 (Some f)) (length h1)"
    using b l4 r4 by auto
  show "nd = HField name y \<Longrightarrow> represents k h3 (FieldNode name t1 None) (length h1)"
    using b l3 r3 by auto
  show "nd = HField name y \<Longrightarrow> represents k h4 (FieldNode name t1 (Some f)) (length h1)"
    using b l4 r4 by auto
qed

lemma represents_new_boolean:
  assumes r: "represents_operands k h1 ts (map Some ys)" and k: "k \<le> length h1"
    and h3: "h3 = set_parents (h1 @ [ListCell (map Some ys), NodeCell nd None None]) ys (Suc (length h1))"
    and h4: "h4 = set_memo h3 (Suc (length h1)) f"
  shows "nd = HAnd (length h1) \<Longrightarrow> represents k h4 (AndNode ts (Some f)) (Suc (length h1))"
    and "nd = HOr (length h1) \<Longrightarrow> represents k h4 (OrNode ts (Some f)) (Suc (length h1))"
proof -
  let ?h2 = "h1 @ [ListCell (map Some ys), NodeCell nd None None]"
  have p1: "preserved (length h1) h1 ?h2"
    by (rule preserved_append) simp
  have p2: "preserved (length h1) ?h2 h3"
    unfolding h3 by (rule preserved_set_parents) simp
  have p3: "preserved (length h1) h3 h4"
    unfolding h4 by (rule preserved_set_memo) (simp_all add: h3)
  from p1 p2 have "preserved (length h1) h1 h3" by (rule preserved_trans)
  from this p3 have q4: "preserved (length h1) h1 h4" by (rule preserved_trans)
  from r q4 have r4: "represents_operands k h4 ts (map Some ys)" by (rule represents_preserved)
  from lookup_set_parents_node [OF lookup_append_new2(2), of h1 "ListCell (map Some ys)" nd None None ys "Suc (length h1)"]
  obtain par where l3: "lookup h3 (Suc (length h1)) = Some (NodeCell nd par None)"
    unfolding h3 by blast
  from lookup_set_memo_node [OF l3, of f]
  have l4: "lookup h4 (Suc (length h1)) = Some (NodeCell nd par (Some f))" unfolding h4 .
  from lookup_set_parents_list [OF lookup_append_new2(1), of h1 "map Some ys" "NodeCell nd None None" ys "Suc (length h1)"]
  have "lookup h3 (length h1) = Some (ListCell (map Some ys))" unfolding h3 .
  from lookup_set_memo_list [OF this, of "Suc (length h1)" f]
  have m4: "lookup h4 (length h1) = Some (ListCell (map Some ys))" unfolding h4 .
  show "nd = HAnd (length h1) \<Longrightarrow> represents k h4 (AndNode ts (Some f)) (Suc (length h1))"
    using k l4 m4 r4 by auto
  show "nd = HOr (length h1) \<Longrightarrow> represents k h4 (OrNode ts (Some f)) (Suc (length h1))"
    using k l4 m4 r4 by auto
qed

lemma drop_eq_Cons:
  "drop i xs = y # ys \<Longrightarrow> i < length xs \<and> xs ! i = y \<and> drop (Suc i) xs = ys"
proof -
  assume d: "drop i xs = y # ys"
  then have i: "i < length xs" by (cases "i < length xs") auto
  from Cons_nth_drop_Suc [OF i] d show ?thesis using i by simp
qed


lemma heap_filter_tree_step:
  assumes l: "lookup h a = Some (NodeCell nd par None)"
    and c: "heap_filter_node_children n hf nd h = Some (h1, r1)"
    and e: "extends h h1"
    and fresh: "\<And>b. r1 = Inr (Some b) \<Longrightarrow>
      length h \<le> b \<and> (\<exists>t'. represents (length h) (set_memo h1 b (hfn_id hf)) t' b)"
  shows "\<exists>h' r. heap_filter_tree (Suc n) hf a h = Some (h', r) \<and> extends h h'
           \<and> (\<forall>b. r = Inr (Some b) \<longrightarrow> (\<exists>t'. represents (length h) h' t' b))"
proof (cases "hfn_call hf h a")
  case True
  with l show ?thesis by simp
next
  case False
  show ?thesis
  proof (cases r1)
    case (Inl err)
    with l c e False show ?thesis by simp
  next
    case (Inr res)
    show ?thesis
    proof (cases res)
      case None
      with Inr l c e False show ?thesis by simp
    next
      case (Some b)
      with Inr fresh [of b] have f: "length h \<le> b"
        "\<exists>t'. represents (length h) (set_memo h1 b (hfn_id hf)) t' b" by auto
      from e f(1) have "extends h (set_memo h1 b (hfn_id hf))" by (rule extends_set_memo)
      with Some Inr l c False f(2) show ?thesis by simp
    qed
  qed
qed

lemma heap_filter_unary_step:
  assumes c: "heap_filter_tree n hf x h = Some (h1, r1)"
    and e: "extends h h1"
    and t: "\<And>y. r1 = Inr (Some y) \<Longrightarrow> \<exists>t1. represents (length h) h1 t1 y"
    and nd: "mk = HNot \<or> mk = HField name"
  shows "\<exists>h2 r2. heap_filter_node_children n hf (mk x) h = Some (h2, r2) \<and> extends h h2
           \<and> (\<forall>b. r2 = Inr (Some b) \<longrightarrow>
                length h \<le> b \<and> (\<exists>t'. represents (length h) (set_memo h2 b (hfn_id hf)) t' b))"
proof (cases r1)
  case (Inl err)
  with c e nd show ?thesis by auto
next
  case (Inr res)
  show ?thesis
  proof (cases res)
    case None
    with Inr c e nd show ?thesis by auto
  next
    case (Some y)
    with Inr t [of y] obtain t1 where r: "represents (length h) h1 t1 y" by auto
    from represents_less [OF r] have y: "length h \<le> y" "y < length h1" by auto
    define h3 where "h3 = set_parent (h1 @ [NodeCell (mk y) None None]) y (length h1)"
    from e have "extends h (h1 @ [NodeCell (mk y) None None])" by (rule extends_append_trans)
    from this y(1) have e3: "extends h h3" unfolding h3_def by (rule extends_set_parent)
    from nd Some Inr c have res: "heap_filter_node_children n hf (mk x) h = Some (h3, Inr (Some (length h1)))"
      by (auto simp: alloc_def h3_def)
    from y have b: "length h \<le> length h1" by simp
    from nd have "\<exists>t'. represents (length h) (set_memo h3 (length h1) (hfn_id hf)) t' (length h1)"
    proof
      assume "mk = HNot"
      with represents_new_unary(2) [OF r h3_def refl, of "hfn_id hf"] show ?thesis by blast
    next
      assume "mk = HField name"
      with represents_new_unary(4) [OF r h3_def refl, of name "hfn_id hf"] show ?thesis by blast
    qed
    with res e3 b show ?thesis by simp
  qed
qed

lemma heap_filter_boolean_step:
  assumes c: "heap_filter_operands n hf src 0 [] h = Some (h1, r1)"
    and e: "extends h h1"
    and t: "\<And>ys. r1 = Inr ys \<Longrightarrow> \<exists>ts. represents_operands (length h) h1 ts (map Some ys)"
    and nd: "mk = HAnd \<or> mk = HOr"
  shows "\<exists>h2 r2. heap_filter_node_children n hf (mk src) h = Some (h2, r2) \<and> extends h h2
           \<and> (\<forall>b. r2 = Inr (Some b) \<longrightarrow>
                length h \<le> b \<and> (\<exists>t'. represents (length h) (set_memo h2 b (hfn_id hf)) t' b))"
proof (cases r1)
  case (Inl err)
  with c e nd show ?thesis by auto
next
  case (Inr ys)
  show ?thesis
  proof (cases "ys = []")
    case True
    with Inr c e nd show ?thesis by auto
  next
    case False
    from Inr t [of ys] obtain ts where r: "represents_operands (length h) h1 ts (map Some ys)"
      by auto
    from represents_operands_less [OF r] have y: "\<forall>y \<in> set ys. length h \<le> y" by blast
    from extends_length [OF e] have b: "length h \<le> length h1" .
    define h3 where
      "h3 = set_parents (h1 @ [ListCell (map Some ys), NodeCell (mk (length h1)) None None]) ys
              (Suc (length h1))"
    from e have "extends h (h1 @ [ListCell (map Some ys), NodeCell (mk (length h1)) None None])"
      by (rule extends_append_trans)
    from this y have e3: "extends h h3" unfolding h3_def by (rule extends_set_parents)
    from nd False Inr c
    have res: "heap_filter_node_children n hf (mk src) h = Some (h3, Inr (Some (Suc (length h1))))"
      by (auto simp: alloc_def h3_def)
    from nd have "\<exists>t'. represents (length h) (set_memo h3 (Suc (length h1)) (hfn_id hf)) t'
                    (Suc (length h1))"
    proof
      assume "mk = HAnd"
      with represents_new_boolean(1) [OF r b h3_def refl, of "hfn_id hf"] show ?thesis by blast
    next
      assume "mk = HOr"
      with represents_new_boolean(2) [OF r b h3_def refl, of "hfn_id hf"] show ?thesis by blast
    qed
    with res e3 b show ?thesis by simp
  qed
qed

lemma heap_filter_leaf_step:
  assumes nd: "nd = HTerm t w p \<or> nd = HNoop"
  shows "\<exists>h2 r2. heap_filter_node_children n hf nd h = Some (h2, r2) \<and> extends h h2
           \<and> (\<forall>b. r2 = Inr (Some b) \<longrightarrow>
                length h \<le> b \<and> (\<exists>t'. represents (length h) (set_memo h2 b (hfn_id hf)) t' b))"
proof -
  have res: "heap_filter_node_children n hf nd h = Some (h @ [NodeCell nd None None], Inr (Some (length h)))"
    using nd by (auto simp: alloc_def)
  have l: "lookup (h @ [NodeCell nd None None]) (length h) = Some (NodeCell nd None None)"
    by (rule lookup_append_new)
  from nd have "\<exists>t'. represents (length h) (set_memo (h @ [NodeCell nd None None]) (length h) (hfn_id hf)) t' (length h)"
  proof
    assume "nd = HTerm t w p"
    from represents_new_leaf(1) [OF order_refl l this] show ?thesis by blast
  next
    assume "nd = HNoop"
    from represents_new_leaf(2) [OF order_refl l this] show ?thesis by blast
  qed
  with res show ?thesis by simp
qed


lemma heap_filter_builds:
  "\<forall>n h a k. represents k h t a \<longrightarrow> unfiltered t \<longrightarrow> filter_fuel t \<le> n \<longrightarrow>
     (\<exists>h' r. heap_filter_tree n hf a h = Some (h', r) \<and> extends h h'
        \<and> (\<forall>b. r = Inr (Some b) \<longrightarrow> (\<exists>t'. represents (length h) h' t' b)))"
  "\<forall>n h src i acc xs k. lookup h src = Some (ListCell xs) \<longrightarrow>
     represents_operands k h ops (drop i xs) \<longrightarrow> unfiltered_operands ops \<longrightarrow>
     filter_fuel_operands ops \<le> n \<longrightarrow>
     (\<exists>h' r. heap_filter_operands n hf src i acc h = Some (h', r) \<and> extends h h'
        \<and> (\<forall>ys. r = Inr ys \<longrightarrow>
             (\<exists>new ts. ys = acc @ new \<and> represents_operands (length h) h' ts (map Some new))))"
proof (induction t and ops rule: filter_fuel_filter_fuel_operands.induct)
  case (1 t w p m)
  show ?case
  proof (intro allI impI)
    fix n h a k
    assume r: "represents k h (TermNode t w p m) a" and u: "unfiltered (TermNode t w p m)"
      and f: "filter_fuel (TermNode t w p m) \<le> n"
    from f obtain n' where n: "n = Suc n'" by (cases n) auto
    from r u obtain par where l: "lookup h a = Some (NodeCell (HTerm t w p) par None)" by auto
    from heap_filter_leaf_step [of "HTerm t w p" t w p n' hf h] obtain h2 r2 where
      "heap_filter_node_children n' hf (HTerm t w p) h = Some (h2, r2)" "extends h h2"
      "\<forall>b. r2 = Inr (Some b) \<longrightarrow>
         length h \<le> b \<and> (\<exists>t'. represents (length h) (set_memo h2 b (hfn_id hf)) t' b)"
      by blast
    from heap_filter_tree_step [OF l this(1,2)] this(3)
    show "\<exists>h' r. heap_filter_tree n hf a h = Some (h', r) \<and> extends h h'
        \<and> (\<forall>b. r = Inr (Some b) \<longrightarrow> (\<exists>t'. represents (length h) h' t' b))"
      unfolding n by blast
  qed
next
  case (2 ops m)
  show ?case
  proof (intro allI impI)
    fix n h a k
    assume r: "represents k h (AndNode ops m) a" and u: "unfiltered (AndNode ops m)"
      and f: "filter_fuel (AndNode ops m) \<le> n"
    from f obtain n' where n: "n = Suc n'" and f': "filter_fuel_operands ops \<le> n'"
      by (cases n) auto
    from r u obtain l par xs where l: "lookup h a = Some (NodeCell (HAnd l) par None)"
      and xs: "lookup h l = Some (ListCell xs)" and ro: "represents_operands k h ops xs"
      by auto
    from u have uo: "unfiltered_operands ops" by simp
    from "2.IH" [rule_format, of h l xs k 0 n' "[]"] xs ro uo f'
    obtain h1 r1 where c: "heap_filter_operands n' hf l 0 [] h = Some (h1, r1)"
      and e: "extends h h1"
      and t: "\<forall>ys. r1 = Inr ys \<longrightarrow>
             (\<exists>new ts. ys = [] @ new \<and> represents_operands (length h) h1 ts (map Some new))"
      by auto
    from t have t': "\<And>ys. r1 = Inr ys \<Longrightarrow> \<exists>ts. represents_operands (length h) h1 ts (map Some ys)"
      by auto
    from heap_filter_boolean_step [OF c e t', of HAnd] obtain h2 r2 where
      "heap_filter_node_children n' hf (HAnd l) h = Some (h2, r2)" "extends h h2"
      "\<forall>b. r2 = Inr (Some b) \<longrightarrow>
         length h \<le> b \<and> (\<exists>t'. represents (length h) (set_memo h2 b (hfn_id hf)) t' b)"
      by blast
    from heap_filter_tree_step [OF l this(1,2)] this(3)
    show "\<exists>h' r. heap_filter_tree n hf a h = Some (h', r) \<and> extends h h'
        \<and> (\<forall>b. r = Inr (Some b) \<longrightarrow> (\<exists>t'. represents (length h) h' t' b))"
      unfolding n by blast
  qed
next
  case (3 ops m)
  show ?case
  proof (intro allI impI)
    fix n h a k
    assume r: "represents k h (OrNode ops m) a" and u: "unfiltered (OrNode ops m)"
      and f: "filter_fuel (OrNode ops m) \<le> n"
    from f obtain n' where n: "n = Suc n'" and f': "filter_fuel_operands ops \<le> n'"
      by (cases n) auto
    from r u obtain l par xs where l: "lookup h a = Some (NodeCell (HOr l) par None)"
      and xs: "lookup h l = Some (ListCell xs)" and ro: "represents_operands k h ops xs"
      by auto
    from u have uo: "unfiltered_operands ops" by simp
    from "3.IH" [rule_format, of h l xs k 0 n' "[]"] xs ro uo f'
    obtain h1 r1 where c: "heap_filter_operands n' hf l 0 [] h = Some (h1, r1)"
      and e: "extends h h1"
      and t: "\<forall>ys. r1 = Inr ys \<longrightarrow>
             (\<exists>new ts. ys = [] @ new \<and> represents_operands (length h) h1 ts (map Some new))"
      by auto
    from t have t': "\<And>ys. r1 = Inr ys \<Longrightarrow> \<exists>ts. represents_operands (length h) h1 ts (map Some ys)"
      by auto
    from heap_filter_boolean_step [OF c e t', of HOr] obtain h2 r2 where
      "heap_filter_node_children n' hf (HOr l) h = Some (h2, r2)" "extends h h2"
      "\<forall>b. r2 = Inr (Some b) \<longrightarrow>
         length h \<le> b \<and> (\<exists>t'. represents (length h) (set_memo h2 b (hfn_id hf)) t' b)"
      by blast
    from heap_filter_tree_step [OF l this(1,2)] this(3)
    show "\<exists>h' r. heap_filter_tree n hf a h = Some (h', r) \<and> extends h h'
        \<and> (\<forall>b. r = Inr (Some b) \<longrightarrow> (\<exists>t'. represents (length h) h' t' b))"
      unfolding n by blast
  qed
next
  case (4 x m)
  show ?case
  proof (intro allI impI)
    fix n h a k
    assume r: "represents k h (NotNode x m) a" and u: "unfiltered (NotNode x m)"
      and f: "filter_fuel (NotNode x m) \<le> n"
    from f obtain n' where n: "n = Suc n'" and f': "filter_fuel x \<le> n'"
      by (cases n) auto
    from r u obtain c par where l: "lookup h a = Some (NodeCell (HNot c) par None)"
      and rx: "represents k h x c" by auto
    from u have ux: "unfiltered x" by simp
    from "4.IH" [rule_format, of k h c n'] rx ux f'
    obtain h1 r1 where c: "heap_filter_tree n' hf c h = Some (h1, r1)"
      and e: "extends h h1"
      and t: "\<forall>b. r1 = Inr (Some b) \<longrightarrow> (\<exists>t'. represents (length h) h1 t' b)"
      by auto
    from t have t': "\<And>y. r1 = Inr (Some y) \<Longrightarrow> \<exists>t1. represents (length h) h1 t1 y" by auto
    from heap_filter_unary_step [OF c e t', of HNot] obtain h2 r2 where
      "heap_filter_node_children n' hf (HNot c) h = Some (h2, r2)" "extends h h2"
      "\<forall>b. r2 = Inr (Some b) \<longrightarrow>
         length h \<le> b \<and> (\<exists>t'. represents (length h) (set_memo h2 b (hfn_id hf)) t' b)"
      by blast
    from heap_filter_tree_step [OF l this(1,2)] this(3)
    show "\<exists>h' r. heap_filter_tree n hf a h = Some (h', r) \<and> extends h h'
        \<and> (\<forall>b. r = Inr (Some b) \<longrightarrow> (\<exists>t'. represents (length h) h' t' b))"
      unfolding n by blast
  qed
next
  case (5 name x m)
  show ?case
  proof (intro allI impI)
    fix n h a k
    assume r: "represents k h (FieldNode name x m) a" and u: "unfiltered (FieldNode name x m)"
      and f: "filter_fuel (FieldNode name x m) \<le> n"
    from f obtain n' where n: "n = Suc n'" and f': "filter_fuel x \<le> n'"
      by (cases n) auto
    from r u obtain c par where l: "lookup h a = Some (NodeCell (HField name c) par None)"
      and rx: "represents k h x c" by auto
    from u have ux: "unfiltered x" by simp
    from "5.IH" [rule_format, of k h c n'] rx ux f'
    obtain h1 r1 where c: "heap_filter_tree n' hf c h = Some (h1, r1)"
      and e: "extends h h1"
      and t: "\<forall>b. r1 = Inr (Some b) \<longrightarrow> (\<exists>t'. represents (length h) h1 t' b)"
      by auto
    from t have t': "\<And>y. r1 = Inr (Some y) \<Longrightarrow> \<exists>t1. represents (length h) h1 t1 y" by auto
    from heap_filter_unary_step [OF c e t', of "HField name" name] obtain h2 r2 where
      "heap_filter_node_children n' hf (HField name c) h = Some (h2, r2)" "extends h h2"
      "\<forall>b. r2 = Inr (Some b) \<longrightarrow>
         length h \<le> b \<and> (\<exists>t'. represents (length h) (set_memo h2 b (hfn_id hf)) t' b)"
      by blast
    from heap_filter_tree_step [OF l this(1,2)] this(3)
    show "\<exists>h' r. heap_filter_tree n hf a h = Some (h', r) \<and> extends h h'
        \<and> (\<forall>b. r = Inr (Some b) \<longrightarrow> (\<exists>t'. represents (length h) h' t' b))"
      unfolding n by blast
  qed
next
  case (6 m)
  show ?case
  proof (intro allI impI)
    fix n h a k
    assume r: "represents k h (NoopNode m) a" and u: "unfiltered (NoopNode m)"
      and f: "filter_fuel (NoopNode m) \<le> n"
    from f obtain n' where n: "n = Suc n'" by (cases n) auto
    from r u obtain par where l: "lookup h a = Some (NodeCell HNoop par None)" by auto
    from heap_filter_leaf_step [of HNoop undefined undefined undefined n' hf h] obtain h2 r2 where
      "heap_filter_node_children n' hf HNoop h = Some (h2, r2)" "extends h h2"
      "\<forall>b. r2 = Inr (Some b) \<longrightarrow>
         length h \<le> b \<and> (\<exists>t'. represents (length h) (set_memo h2 b (hfn_id hf)) t' b)"
      by blast
    from heap_filter_tree_step [OF l this(1,2)] this(3)
    show "\<exists>h' r. heap_filter_tree n hf a h = Some (h', r) \<and> extends h h'
        \<and> (\<forall>b. r = Inr (Some b) \<longrightarrow> (\<exists>t'. represents (length h) h' t' b))"
      unfolding n by blast
  qed
next
  case 7
  show ?case
  proof (intro allI impI)
    fix n h src i acc xs k
    assume l: "lookup h src = Some (ListCell xs)"
      and r: "represents_operands k h [] (drop i xs)"
      and f: "filter_fuel_operands [] \<le> n"
    from f obtain n' where n: "n = Suc n'" by (cases n) auto
    from r have "\<not> i < length xs" by simp
    with l have "heap_filter_operands n hf src i acc h = Some (h, Inr acc)"
      unfolding n by simp
    moreover have "represents_operands (length h) h [] (map Some [])" by simp
    ultimately show "\<exists>h' r. heap_filter_operands n hf src i acc h = Some (h', r) \<and> extends h h'
        \<and> (\<forall>ys. r = Inr ys \<longrightarrow>
             (\<exists>new ts. ys = acc @ new \<and> represents_operands (length h) h' ts (map Some new)))"
      by (intro exI [of _ h] exI [of _ "Inr acc"] conjI allI impI exI [of _ "[]"]) auto
  qed
next
  case (8 ops)
  show ?case
  proof (intro allI impI)
    fix n h src i acc xs k
    assume l: "lookup h src = Some (ListCell xs)"
      and r: "represents_operands k h (None # ops) (drop i xs)"
      and f: "filter_fuel_operands (None # ops) \<le> n"
    from f obtain n' where n: "n = Suc n'" by (cases n) auto
    from r obtain ys where "drop i xs = None # ys" by auto
    from drop_eq_Cons [OF this] have "i < length xs" "xs ! i = None" by auto
    with l have "heap_filter_operands n hf src i acc h = Some (h, Inl no_filter_tree)"
      unfolding n by simp
    then show "\<exists>h' r. heap_filter_operands n hf src i acc h = Some (h', r) \<and> extends h h'
        \<and> (\<forall>ys. r = Inr ys \<longrightarrow>
             (\<exists>new ts. ys = acc @ new \<and> represents_operands (length h) h' ts (map Some new)))"
      by simp
  qed
next
  case (9 t ops)
  show ?case
  proof (intro allI impI)
    fix n h src i acc xs k
    assume l: "lookup h src = Some (ListCell xs)"
      and r: "represents_operands k h (Some t # ops) (drop i xs)"
      and u: "unfiltered_operands (Some t # ops)"
      and f: "filter_fuel_operands (Some t # ops) \<le> n"
    from f obtain n' where n: "n = Suc n'" and ft: "filter_fuel t \<le> n'"
      and fo: "filter_fuel_operands ops \<le> n'"
      by (cases n) auto
    from u have ut: "unfiltered t" and uo: "unfiltered_operands ops" by auto
    from r obtain c zs where d: "drop i xs = Some c # zs" and rt: "represents k h t c"
      and ro: "represents_operands k h ops zs" by auto
    from drop_eq_Cons [OF d] have i: "i < length xs" "xs ! i = Some c" "drop (Suc i) xs = zs"
      by auto
    from "9.IH"(1) [rule_format, of k h c n'] rt ut ft
    obtain h1 r1 where c: "heap_filter_tree n' hf c h = Some (h1, r1)"
      and e: "extends h h1"
      and t: "\<forall>b. r1 = Inr (Some b) \<longrightarrow> (\<exists>t'. represents (length h) h1 t' b)"
      by auto
    from l e have l1: "lookup h1 src = Some (ListCell xs)" by (rule lookup_extends)
    from ro e have ro1: "represents_operands k h1 ops (drop (Suc i) xs)"
      unfolding i(3) by (rule represents_extends)
    from extends_length [OF e] have le: "length h \<le> length h1" .
    have step: "\<exists>h' r. heap_filter_operands n' hf src (Suc i) acc' h1 = Some (h', r) \<and> extends h1 h'
        \<and> (\<forall>ys. r = Inr ys \<longrightarrow>
             (\<exists>new ts. ys = acc' @ new \<and> represents_operands (length h1) h' ts (map Some new)))"
      for acc'
      using "9.IH"(2) [rule_format, of h1 src xs k "Suc i" n' acc'] l1 ro1 uo fo by blast
    show "\<exists>h' r. heap_filter_operands n hf src i acc h = Some (h', r) \<and> extends h h'
        \<and> (\<forall>ys. r = Inr ys \<longrightarrow>
             (\<exists>new ts. ys = acc @ new \<and> represents_operands (length h) h' ts (map Some new)))"
    proof (cases r1)
      case (Inl err)
      with l i c have "heap_filter_operands n hf src i acc h = Some (h1, Inl err)"
        unfolding n by simp
      with e show ?thesis by simp
    next
      case (Inr res)
      show ?thesis
      proof (cases res)
        case None
        from step [of acc] obtain h' r' where
          s: "heap_filter_operands n' hf src (Suc i) acc h1 = Some (h', r')"
          and e': "extends h1 h'"
          and t': "\<forall>ys. r' = Inr ys \<longrightarrow>
             (\<exists>new ts. ys = acc @ new \<and> represents_operands (length h1) h' ts (map Some new))"
          by blast
        from None Inr l i c s have res: "heap_filter_operands n hf src i acc h = Some (h', r')"
          unfolding n by simp
        from e e' have ee: "extends h h'" by (rule extends_trans)
        have "\<exists>new ts. ys = acc @ new \<and> represents_operands (length h) h' ts (map Some new)"
          if "r' = Inr ys" for ys
        proof -
          from t' that obtain new ts where "ys = acc @ new"
            "represents_operands (length h1) h' ts (map Some new)" by blast
          with represents_bound(2) [OF this(2) le] show ?thesis by blast
        qed
        with res ee show ?thesis by blast
      next
        case (Some y)
        with Inr t obtain t1 where r1: "represents (length h) h1 t1 y" by blast
        from step [of "acc @ [y]"] obtain h' r' where
          s: "heap_filter_operands n' hf src (Suc i) (acc @ [y]) h1 = Some (h', r')"
          and e': "extends h1 h'"
          and t': "\<forall>ys. r' = Inr ys \<longrightarrow>
             (\<exists>new ts. ys = (acc @ [y]) @ new
                \<and> represents_operands (length h1) h' ts (map Some new))"
          by blast
        from Some Inr l i c s have res: "heap_filter_operands n hf src i acc h = Some (h', r')"
          unfolding n by simp
        from e e' have ee: "extends h h'" by (rule extends_trans)
        from r1 e' have r1': "represents (length h) h' t1 y" by (rule represents_extends)
        have "\<exists>new ts. ys = acc @ new \<and> represents_operands (length h) h' ts (map Some new)"
          if "r' = Inr ys" for ys
        proof -
          from t' that obtain new ts where ys: "ys = (acc @ [y]) @ new"
            and ro': "represents_operands (length h1) h' ts (map Some new)" by blast
          from represents_bound(2) [OF ro' le] r1'
          have "represents_operands (length h) h' (Some t1 # ts) (map Some (y # new))" by simp
          with ys show ?thesis by (intro exI [of _ "y # new"] exI [of _ "Some t1 # ts"]) simp
        qed
        with res ee show ?thesis by blast
      qed
    qed
  qed
qed

subsection \<open>The claims\<close>

lemma parse_sentence_and_media_id:
  "parse ''sentence:( foo and bar ) and media_id:1'' =
     Some (Inr (Some (AndNode
       [Some (FieldNode ''sentence''
          (AndNode [Some (TermNode ''foo'' False False None),
                    Some (TermNode ''bar'' False False None)] None) None),
        Some (FieldNode ''media_id'' (TermNode ''1'' False False None) None)] None)))"
  by code_simp

lemma tsquery_sentence_and_media_id:
  "parse_tsquery ''sentence:( foo and bar ) and media_id:1'' = Some (Inr ''( ( foo & bar ) )'')"
  by code_simp

lemma tsquery_range_and_bar:
  "parse_tsquery ''foo:[1 TO 10] and bar'' = Some (Inr ''( bar )'')"
  by code_simp

text \<open>
  C1 as stated fails: the two calls do not return \<open>( foo & bar )\<close> and \<open>bar\<close>.
\<close>

theorem C1_counterexample:
  "parse_tsquery ''sentence:( foo and bar ) and media_id:1'' \<noteq> Some (Inr ''( foo & bar )'')
   \<and> parse_tsquery ''foo:[1 TO 10] and bar'' \<noteq> Some (Inr ''bar'')"
  by (simp add: tsquery_sentence_and_media_id tsquery_range_and_bar)

text \<open>
  C1, amended: \<open>parse("sentence:( foo and bar ) and media_id:1").tsquery()\<close> returns
  \<open>( ( foo & bar ) )\<close> and \<open>parse("foo:[1 TO 10] and bar").tsquery()\<close> returns \<open>( bar )\<close>: an
  \<open>And\<close> node that filtering leaves with one operand does not collapse in the tsquery, it is
  emitted as its operand's tsquery inside its own pair of parentheses.
\<close>

theorem C1_single_operand_and_keeps_parentheses:
  "parse_tsquery ''sentence:( foo and bar ) and media_id:1'' = Some (Inr ''( ( foo & bar ) )'')
   \<and> parse_tsquery ''foo:[1 TO 10] and bar'' = Some (Inr ''( bar )'')
   \<and> (\<forall>x m s. get_tsquery x = Inr s \<longrightarrow>
         get_tsquery (AndNode [Some x] m) = Inr (''( '' @ s @ '' )''))"
  by (simp add: tsquery_sentence_and_media_id tsquery_range_and_bar boolean_tsquery_def)

theorem C1_single_operand_witness:
  "get_tsquery (TermNode ''bar'' False False None) = Inr ''bar''
   \<and> get_tsquery (AndNode [Some (TermNode ''bar'' False False None)] None) = Inr ''( bar )''"
proof -
  have g: "get_tsquery (TermNode ''bar'' False False None) = Inr ''bar''" by simp
  have "get_tsquery (AndNode [Some (TermNode ''bar'' False False None)] None)
          = Inr (''( '' @ ''bar'' @ '' )'')"
    using C1_single_operand_and_keeps_parentheses g by blast
  then show ?thesis using g by simp
qed

text \<open>
  C2 (evaluation of the code at the failing inputs): for the empty query \<open>parse\<close> returns
  \<open>None\<close> and raises nothing; an empty group after an operator leaves \<open>None\<close> among the
  operands of the returned tree; an empty group before an operator ends in \<open>AttributeError\<close>,
  which is not a syntax error.
\<close>

theorem C2_parse_empty_query_returns_none:
  "parse [] = Some (Inr None)
   \<and> parse ''a and ( )'' =
       Some (Inr (Some (AndNode [Some (TermNode ''a'' False False None), None] None)))
   \<and> parse ''( ) and a'' = Some (Inl no_parent)
   \<and> \<not> is_syntax_error (Inl no_parent :: error + node option)"
  by code_simp

text \<open>
  C3: whenever \<open>parse\<close> returns a tree, the tree is flat: no \<open>And\<close> node has an \<open>And\<close> node among
  its direct operands and no \<open>Or\<close> node has an \<open>Or\<close> node among its direct operands. The same
  holds for every token list given to the parser.
\<close>

theorem C3_parse_flattens:
  "(parse q = Some (Inr (Some t)) \<longrightarrow> flat t)
   \<and> (parse_token_list tokens = Some (Inr (Some t')) \<longrightarrow> flat t')"
proof -
  have tl: "flat u" if "parse_token_list ts = Some (Inr (Some u))" for ts u
  proof -
    from that obtain rest where
      "parse_tokens (parse_fuel ts) ts default_want_type None False = Some (Inr (Some u, rest))"
      by (auto simp: parse_token_list_def split: option.splits sum.splits)
    from flat_parse_tokens [OF _ this] show "flat u" by simp
  qed
  have "flat t" if "parse q = Some (Inr (Some t))"
  proof -
    from that obtain ts where "parse_token_list ts = Some (Inr (Some t))"
      by (auto simp: parse_def split: sum.splits)
    then show ?thesis by (rule tl)
  qed
  with tl show ?thesis by blast
qed

lemma parse_nested_and:
  "parse ''a and ( b and c ) or d'' =
     Some (Inr (Some (OrNode
       [Some (AndNode [Some (TermNode ''a'' False False None),
                       Some (TermNode ''b'' False False None),
                       Some (TermNode ''c'' False False None)] None),
        Some (TermNode ''d'' False False None)] None)))"
  by code_simp

theorem C3_parse_flattens_witness:
  "parse ''a and ( b and c ) or d'' =
     Some (Inr (Some (OrNode
       [Some (AndNode [Some (TermNode ''a'' False False None),
                       Some (TermNode ''b'' False False None),
                       Some (TermNode ''c'' False False None)] None),
        Some (TermNode ''d'' False False None)] None)))
   \<and> flat (OrNode
       [Some (AndNode [Some (TermNode ''a'' False False None),
                       Some (TermNode ''b'' False False None),
                       Some (TermNode ''c'' False False None)] None),
        Some (TermNode ''d'' False False None)] None)"
  using C3_parse_flattens [of "''a and ( b and c ) or d''"] parse_nested_and by blast

text \<open>
  C4: when \<open>t.filter_tree(p)\<close> returns a tree \<open>t'\<close>, \<open>t'.filter_tree(p)\<close> returns \<open>t'\<close> itself:
  the returned tree records \<open>p\<close> in \<open>filtered_by_function\<close>, and a tree that records the
  function it is given is returned as it is.
\<close>

theorem C4_filter_tree_idempotent:
  "filter_tree f t = Inr (Some t') \<Longrightarrow> filter_tree f t' = Inr (Some t')"
proof -
  assume a: "filter_tree f t = Inr (Some t')"
  from filter_tree_cases [OF a] have "filtered_by_function t' = Some (fn_id f)" by auto
  then show ?thesis by simp
qed

lemma filter_foo_and_media_id:
  "filter_tree tsquery_filter
     (AndNode [Some (TermNode ''foo'' False False None),
               Some (FieldNode ''media_id'' (TermNode ''1'' False False None) None)] None)
   = Inr (Some (AndNode [Some (TermNode ''foo'' False False (Some Node_is_field_or_noop))]
                  (Some Node_is_field_or_noop)))"
  by (simp add: tsquery_filter_def new_BooleanNode_def)

theorem C4_filter_tree_idempotent_witness:
  "filter_tree tsquery_filter
     (AndNode [Some (TermNode ''foo'' False False None),
               Some (FieldNode ''media_id'' (TermNode ''1'' False False None) None)] None)
   = Inr (Some (AndNode [Some (TermNode ''foo'' False False (Some Node_is_field_or_noop))]
                  (Some Node_is_field_or_noop)))
   \<and> filter_tree tsquery_filter
       (AndNode [Some (TermNode ''foo'' False False (Some Node_is_field_or_noop))]
          (Some Node_is_field_or_noop))
     = Inr (Some (AndNode [Some (TermNode ''foo'' False False (Some Node_is_field_or_noop))]
                    (Some Node_is_field_or_noop)))"
  using C4_filter_tree_idempotent [OF filter_foo_and_media_id] filter_foo_and_media_id
  by (rule_tac conjI)

lemma parse_re_not_foo: "parse_re ''!foo'' = Some (Inl empty_query)"
  by code_simp

lemma parse_not_foo_and_not_bar:
  "parse ''!foo and !bar'' =
     Some (Inr (Some (AndNode [Some (NotNode (TermNode ''foo'' False False None) None),
                               Some (NotNode (TermNode ''bar'' False False None) None)] None)))"
  by code_simp

lemma parse_foo_and_not_bar:
  "parse ''foo and !bar'' =
     Some (Inr (Some (AndNode [Some (TermNode ''foo'' False False None),
                               Some (NotNode (TermNode ''bar'' False False None) None)] None)))"
  by code_simp

lemma filter_foo_and_not_bar:
  "filter_tree re_filter
     (AndNode [Some (TermNode ''foo'' False False None),
               Some (NotNode (TermNode ''bar'' False False None) None)] None)
   = Inr (Some (AndNode
       [Some (TermNode ''foo'' False False (Some Node_is_field_or_noop_or_not))]
       (Some Node_is_field_or_noop_or_not)))"
  by (simp add: new_BooleanNode_def)

text \<open>
  C8: the filter of \<open>re()\<close> leaves no \<open>Not\<close> node in the tree it returns for a tree of the
  parser, whatever the tokens or the query; when the tree of the parser consists only of
  negated content (\<open>negated_only\<close>), the filter returns \<open>None\<close> and \<open>re()\<close> fails with the syntax
  error of the empty query; \<open>re()\<close> of a tree whose root is a \<open>Not\<close> node fails with a syntax
  error. So \<open>parse("!foo").re()\<close>, \<open>parse("!foo and !bar").re()\<close>, \<open>parse("!foo or !bar").re()\<close>
  and \<open>parse("not ( foo or bar )").re()\<close> fail with this syntax error, while
  \<open>parse("foo and !bar").re()\<close> returns the expression of \<open>foo\<close> alone.
\<close>

theorem C8_re_rejects_negation:
  "(\<forall>tokens t t'. parse_token_list tokens = Some (Inr (Some t)) \<longrightarrow>
       filter_tree re_filter t = Inr (Some t') \<longrightarrow> \<not> has_not t')
   \<and> (\<forall>q t t'. parse q = Some (Inr (Some t)) \<longrightarrow>
       filter_tree re_filter t = Inr (Some t') \<longrightarrow> \<not> has_not t')
   \<and> (\<forall>tokens t. parse_token_list tokens = Some (Inr (Some t)) \<longrightarrow> negated_only t \<longrightarrow>
       filter_tree re_filter t = Inr None \<and> re t = Inl empty_query)
   \<and> (\<forall>q t. parse q = Some (Inr (Some t)) \<longrightarrow> negated_only t \<longrightarrow>
       parse_re q = Some (Inl empty_query))
   \<and> (\<forall>x m. is_syntax_error (re (NotNode x m)))
   \<and> is_syntax_error (Inl empty_query :: error + string)
   \<and> parse_re ''!foo'' = Some (Inl empty_query)
   \<and> parse_re ''!foo and !bar'' = Some (Inl empty_query)
   \<and> parse_re ''!foo or !bar'' = Some (Inl empty_query)
   \<and> parse_re ''not ( foo or bar )'' = Some (Inl empty_query)
   \<and> parse_re ''foo and !bar'' = Some (Inr ''[[:<:]]foo'')"
proof -
  have a: "\<not> has_not t'"
    if "parse_token_list tokens = Some (Inr (Some t))" "filter_tree re_filter t = Inr (Some t')"
    for tokens t t'
    using re_filter_removes_not(1) [of re_filter t] unfiltered_parse_token_list [OF that(1)] that(2)
    by blast
  have b: "\<not> has_not t'"
    if "parse q = Some (Inr (Some t))" "filter_tree re_filter t = Inr (Some t')" for q t t'
    using re_filter_removes_not(1) [of re_filter t] unfiltered_parse [OF that(1)] that(2) by blast
  have c: "filter_tree re_filter t = Inr None \<and> re t = Inl empty_query"
    if "parse_token_list tokens = Some (Inr (Some t))" "negated_only t" for tokens t
    using re_filter_negated_only(1) [of re_filter t] unfiltered_parse_token_list [OF that(1)] that(2)
    by (simp add: re_def)
  have d: "parse_re q = Some (Inl empty_query)"
    if "parse q = Some (Inr (Some t))" "negated_only t" for q t
    using re_negated_only [OF unfiltered_parse [OF that(1)] that(2)] that(1)
    by (simp add: parse_re_def)
  have e: "is_syntax_error (re (NotNode x m))" for x m
    by (simp add: re_def empty_query_def)
  have f: "is_syntax_error (Inl empty_query :: error + string)"
    by (simp add: empty_query_def)
  have g: "parse_re ''!foo and !bar'' = Some (Inl empty_query)" by code_simp
  have h: "parse_re ''!foo or !bar'' = Some (Inl empty_query)" by code_simp
  have i: "parse_re ''not ( foo or bar )'' = Some (Inl empty_query)" by code_simp
  have j: "parse_re ''foo and !bar'' = Some (Inr ''[[:<:]]foo'')" by code_simp
  from a b c d e f parse_re_not_foo g h i j show ?thesis by blast
qed

theorem C8_re_rejects_negation_witness:
  "parse ''foo and !bar'' =
     Some (Inr (Some (AndNode [Some (TermNode ''foo'' False False None),
                               Some (NotNode (TermNode ''bar'' False False None) None)] None)))
   \<and> filter_tree re_filter
       (AndNode [Some (TermNode ''foo'' False False None),
                 Some (NotNode (TermNode ''bar'' False False None) None)] None)
     = Inr (Some (AndNode
         [Some (TermNode ''foo'' False False (Some Node_is_field_or_noop_or_not))]
         (Some Node_is_field_or_noop_or_not)))
   \<and> \<not> has_not (AndNode
         [Some (TermNode ''foo'' False False (Some Node_is_field_or_noop_or_not))]
         (Some Node_is_field_or_noop_or_not))
   \<and> parse ''!foo and !bar'' =
       Some (Inr (Some (AndNode [Some (NotNode (TermNode ''foo'' False False None) None),
                                 Some (NotNode (TermNode ''bar'' False False None) None)] None)))
   \<and> negated_only (AndNode [Some (NotNode (TermNode ''foo'' False False None) None),
                             Some (NotNode (TermNode ''bar'' False False None) None)] None)
   \<and> parse_re ''!foo and !bar'' = Some (Inl empty_query)"
proof -
  note c = C8_re_rejects_negation
  from c have "\<forall>q t t'. parse q = Some (Inr (Some t)) \<longrightarrow>
       filter_tree re_filter t = Inr (Some t') \<longrightarrow> \<not> has_not t'"
    by (rule conjunct1 [OF conjunct2])
  from this [rule_format, OF parse_foo_and_not_bar filter_foo_and_not_bar]
  have a: "\<not> has_not (AndNode
         [Some (TermNode ''foo'' False False (Some Node_is_field_or_noop_or_not))]
         (Some Node_is_field_or_noop_or_not))" .
  have n: "negated_only (AndNode [Some (NotNode (TermNode ''foo'' False False None) None),
                             Some (NotNode (TermNode ''bar'' False False None) None)] None)"
    by simp
  from c have "\<forall>q t. parse q = Some (Inr (Some t)) \<longrightarrow> negated_only t \<longrightarrow>
       parse_re q = Some (Inl empty_query)"
    by (rule conjunct1 [OF conjunct2 [OF conjunct2 [OF conjunct2]]])
  from this [rule_format, OF parse_not_foo_and_not_bar n]
  have b: "parse_re ''!foo and !bar'' = Some (Inl empty_query)" .
  from a b n parse_foo_and_not_bar filter_foo_and_not_bar parse_not_foo_and_not_bar
  show ?thesis by (intro conjI)
qed

text \<open>
  C5: two adjacent \<open>TERM\<close> tokens parse to the same result as the same tokens with an \<open>OR\<close> token
  between them, whatever their text; \<open>parse("foo bar")\<close> equals \<open>parse("foo or bar")\<close>, and
  \<open>parse("foo bar").tsquery()\<close> returns \<open>( foo | bar )\<close>.
\<close>

theorem C5_implicit_or:
  "(\<forall>a b. parse_token_list [Token ''('' T_OPEN, Token a T_TERM, Token b T_TERM, Token '')'' T_CLOSE]
        = parse_token_list [Token ''('' T_OPEN, Token a T_TERM, Token ''or'' T_OR, Token b T_TERM,
                            Token '')'' T_CLOSE])
   \<and> parse ''foo bar'' = parse ''foo or bar''
   \<and> parse_tsquery ''foo bar'' = Some (Inr ''( foo | bar )'')"
proof -
  have a: "parse_token_list [Token ''('' T_OPEN, Token a T_TERM, Token b T_TERM, Token '')'' T_CLOSE]
        = parse_token_list [Token ''('' T_OPEN, Token a T_TERM, Token ''or'' T_OR, Token b T_TERM,
                            Token '')'' T_CLOSE]" for a b
    by (simp add: parse_token_list_def parse_fuel_def default_want_type_def eval_nat_numeral
        insert_implicit_def after_parse_def after_new_def end_of_body_def operator_clause_def
        new_BooleanNode_def term_clause_def is_boolean_def)
  have b: "parse ''foo bar'' = parse ''foo or bar''" by code_simp
  have c: "parse_tsquery ''foo bar'' = Some (Inr ''( foo | bar )'')" by code_simp
  from a b c show ?thesis by blast
qed

text \<open>
  C6 as stated fails for a phrase \<open>Term\<close> whose text is a quote that is never closed:
  \<open>shlex.split\<close> raises \<open>ValueError\<close>, which is not a syntax error, and no word is looked for.
  The parser builds such a node from \<open>abc"\<close>, where the tokenizer returns the quote as a
  lexeme of its own.
\<close>

theorem C6_counterexample:
  "get_tsquery (TermNode [CHR 0x22] False True None) = Inl (ValueError ''No closing quotation'')
   \<and> \<not> is_syntax_error (get_tsquery (TermNode [CHR 0x22] False True None))
   \<and> parse (''abc'' @ [CHR 0x22]) =
       Some (Inr (Some (OrNode [Some (TermNode ''abc'' False False None),
                                Some (TermNode [CHR 0x22] False True None)] None)))
   \<and> parse_tsquery (''abc'' @ [CHR 0x22]) = Some (Inl (ValueError ''No closing quotation''))"
  by code_simp

text \<open>
  C6, amended: for every \<open>Term\<close> node with \<open>phrase=true\<close>, \<open>get_tsquery\<close> fails with the
  exception of \<open>shlex.split\<close> when the text cannot be read, and otherwise takes the first
  word that \<open>shlex.split\<close> reads, keeps the words of it, and returns what \<open>get_tsquery\<close>
  returns for the \<open>And\<close> node of these words as plain terms, which is the words joined by
  \<open>&\<close> in parentheses; it fails with the syntax error of the empty phrase when there is no
  word. The first word of a quoted span (a quote character, a body without that quote
  character and, in double quotes, without a backslash, and the closing quote) is the body;
  without the closing quote the text cannot be read (\<open>ValueError\<close>). The words are the
  maximal runs of word characters, from left to right.
  \<open>parse('"hello world"').tsquery()\<close> returns \<open>( hello & world )\<close>.
\<close>

theorem C6_phrase_tsquery_of_first_word:
  "(\<forall>t w m. get_tsquery (TermNode t w True m) =
      (case shlex_first t of
         Inl e \<Rightarrow> Inl e
       | Inr d \<Rightarrow>
           if phrase_words d = [] then Inl (ParseSyntaxError ''empty phrase not allowed'')
           else get_tsquery
                  (AndNode (map (\<lambda>x. Some (TermNode x False False None)) (phrase_words d)) None)))
   \<and> (\<forall>ws m. get_tsquery (AndNode (map (\<lambda>x. Some (TermNode x False False None)) ws) m) =
        Inr (''( '' @ join '' & '' ws @ '' )''))
   \<and> (\<forall>q body. quote_char q \<and> q \<notin> set body \<and> (q = CHR 0x22 \<longrightarrow> CHR 0x5C \<notin> set body) \<longrightarrow>
        shlex_first (q # body @ [q]) = Inr body
        \<and> shlex_first (q # body) = Inl (ValueError ''No closing quotation''))
   \<and> phrase_words [] = []
   \<and> (\<forall>c s. \<not> word_char c \<longrightarrow> phrase_words (c # s) = phrase_words s)
   \<and> (\<forall>c s. word_char c \<longrightarrow>
        phrase_words (c # s) = (c # takeWhile word_char s) # phrase_words (dropWhile word_char s))
   \<and> parse_tsquery (CHR 0x22 # ''hello world'' @ [CHR 0x22]) = Some (Inr ''( hello & world )'')
   \<and> parse_tsquery (CHR 0x22 # ''Caf'' @ [CHR 0xC9] @ '' au lait'' @ [CHR 0x22]) =
       Some (Inr (''( caf'' @ [CHR 0xE9] @ '' & au & lait )''))
   \<and> get_tsquery (TermNode (CHR 0x22 # ''a'' @ [CHR 0x5C, CHR 0x22] @ ''b'' @ [CHR 0x22])
        False True None) = Inr ''( a & b )''
   \<and> get_tsquery (TermNode (CHR 0x22 # ''a'' @ [CHR 0x22] @ '' b'') False True None) =
       Inr ''( a )''
   \<and> parse_tsquery (CHR 0x22 # ''--'' @ [CHR 0x22]) =
       Some (Inl (ParseSyntaxError ''empty phrase not allowed''))"
proof -
  have a: "get_tsquery (TermNode t w True m) =
      (case shlex_first t of
         Inl e \<Rightarrow> Inl e
       | Inr d \<Rightarrow>
           if phrase_words d = [] then Inl (ParseSyntaxError ''empty phrase not allowed'')
           else get_tsquery
                  (AndNode (map (\<lambda>x. Some (TermNode x False False None)) (phrase_words d)) None))"
    for t w m
    by (simp add: get_tsquery_plain_terms split: sum.splits)
  have b: "get_tsquery (AndNode (map (\<lambda>x. Some (TermNode x False False None)) ws) m) =
        Inr (''( '' @ join '' & '' ws @ '' )'')" for ws m
    by (simp add: get_tsquery_plain_terms boolean_tsquery_def)
  have c: "shlex_first (q # body @ [q]) = Inr body
        \<and> shlex_first (q # body) = Inl (ValueError ''No closing quotation'')"
    if "quote_char q \<and> q \<notin> set body \<and> (q = CHR 0x22 \<longrightarrow> CHR 0x5C \<notin> set body)" for q body
    using that shlex_first_quoted [of q body] shlex_first_open [of q body] by blast
  have d: "parse_tsquery (CHR 0x22 # ''hello world'' @ [CHR 0x22]) = Some (Inr ''( hello & world )'')"
    by code_simp
  have e: "parse_tsquery (CHR 0x22 # ''Caf'' @ [CHR 0xC9] @ '' au lait'' @ [CHR 0x22]) =
       Some (Inr (''( caf'' @ [CHR 0xE9] @ '' & au & lait )''))"
    by code_simp
  have f: "get_tsquery (TermNode (CHR 0x22 # ''a'' @ [CHR 0x5C, CHR 0x22] @ ''b'' @ [CHR 0x22])
        False True None) = Inr ''( a & b )''"
    by code_simp
  have g: "get_tsquery (TermNode (CHR 0x22 # ''a'' @ [CHR 0x22] @ '' b'') False True None) =
       Inr ''( a )''"
    by code_simp
  have h: "parse_tsquery (CHR 0x22 # ''--'' @ [CHR 0x22]) =
       Some (Inl (ParseSyntaxError ''empty phrase not allowed''))"
    by code_simp
  from a b c d e f g h phrase_words_Nil phrase_words_nonword phrase_words_word
  show ?thesis by (intro conjI allI impI) blast+
qed

theorem C6_phrase_tsquery_witness:
  "quote_char (CHR 0x22) \<and> CHR 0x22 \<notin> set ''hello world'' \<and> CHR 0x5C \<notin> set ''hello world''
   \<and> shlex_first (CHR 0x22 # ''hello world'' @ [CHR 0x22]) = Inr ''hello world''
   \<and> shlex_first (CHR 0x22 # ''hello world'') = Inl (ValueError ''No closing quotation'')
   \<and> word_char CHR ''h'' \<and> \<not> word_char CHR '' '' \<and> word_char CHR ''w''
   \<and> phrase_words ''hello world'' = [''hello'', ''world'']
   \<and> get_tsquery (TermNode (CHR 0x22 # ''hello world'' @ [CHR 0x22]) False True None)
       = get_tsquery (AndNode [Some (TermNode ''hello'' False False None),
                               Some (TermNode ''world'' False False None)] None)"
proof -
  note c = C6_phrase_tsquery_of_first_word
  have h: "quote_char (CHR 0x22) \<and> CHR 0x22 \<notin> set ''hello world''
           \<and> (CHR 0x22 = CHR 0x22 \<longrightarrow> CHR 0x5C \<notin> set ''hello world'')"
    by (simp add: quote_char_def)
  have wc: "word_char CHR ''h''" "\<not> word_char CHR '' ''" "word_char CHR ''w''"
    by (simp_all add: word_char_def)
  from c h have s: "shlex_first (CHR 0x22 # ''hello world'' @ [CHR 0x22]) = Inr ''hello world''
        \<and> shlex_first (CHR 0x22 # ''hello world'') = Inl (ValueError ''No closing quotation'')"
    by blast
  from c wc(1) have "phrase_words ''hello world'' =
      (CHR ''h'' # takeWhile word_char ''ello world'')
        # phrase_words (dropWhile word_char ''ello world'')"
    by blast
  then have p1: "phrase_words ''hello world'' = ''hello'' # phrase_words '' world''"
    by (simp add: word_char_def)
  from c wc(2) have p2: "phrase_words '' world'' = phrase_words ''world''"
    by blast
  from c wc(3) have "phrase_words ''world'' =
      (CHR ''w'' # takeWhile word_char ''orld'') # phrase_words (dropWhile word_char ''orld'')"
    by blast
  then have p3: "phrase_words ''world'' = ''world'' # phrase_words []"
    by (simp add: word_char_def)
  from c have p4: "phrase_words [] = []" by blast
  from p1 p2 p3 p4 have p: "phrase_words ''hello world'' = [''hello'', ''world'']" by simp
  from c have "get_tsquery (TermNode (CHR 0x22 # ''hello world'' @ [CHR 0x22]) False True None) =
      (case shlex_first (CHR 0x22 # ''hello world'' @ [CHR 0x22]) of
         Inl e \<Rightarrow> Inl e
       | Inr d \<Rightarrow>
           if phrase_words d = [] then Inl (ParseSyntaxError ''empty phrase not allowed'')
           else get_tsquery
                  (AndNode (map (\<lambda>x. Some (TermNode x False False None)) (phrase_words d)) None))"
    by blast
  with s p have g: "get_tsquery (TermNode (CHR 0x22 # ''hello world'' @ [CHR 0x22]) False True None)
       = get_tsquery (AndNode [Some (TermNode ''hello'' False False None),
                               Some (TermNode ''world'' False False None)] None)"
    by simp
  from h s wc p g show ?thesis by simp
qed

text \<open>
  C7: \<open>parse("foo and bar").re()\<close> returns the alternation of both orders of \<open>[[:<:]]foo\<close> and
  \<open>[[:<:]]bar\<close> around \<open>.*\<close>; an \<open>And\<close> node of two operands whose expressions are \<open>A\<close> and \<open>B\<close>
  emits \<open>(?: (?: A .* B ) | (?: B .* A ) )\<close>.
\<close>

theorem C7_and_regex_both_orders:
  "parse_re ''foo and bar'' =
     Some (Inr ''(?: (?: [[:<:]]foo .* [[:<:]]bar ) | (?: [[:<:]]bar .* [[:<:]]foo ) )'')
   \<and> (\<forall>a b m A B. get_re a = Inr A \<and> get_re b = Inr B \<longrightarrow>
         get_re (AndNode [Some a, Some b] m) =
           Inr (''(?: (?: '' @ A @ '' .* '' @ B @ '' ) | (?: '' @ B @ '' .* '' @ A @ '' ) )''))"
proof -
  have "parse_re ''foo and bar'' =
     Some (Inr ''(?: (?: [[:<:]]foo .* [[:<:]]bar ) | (?: [[:<:]]bar .* [[:<:]]foo ) )'')"
    by code_simp
  then show ?thesis by (simp add: and_re_def)
qed

theorem C7_and_regex_witness:
  "get_re (TermNode ''foo'' False False None) = Inr ''[[:<:]]foo''
   \<and> get_re (TermNode ''bar'' False False None) = Inr ''[[:<:]]bar''
   \<and> get_re (AndNode [Some (TermNode ''foo'' False False None),
                      Some (TermNode ''bar'' False False None)] None)
       = Inr ''(?: (?: [[:<:]]foo .* [[:<:]]bar ) | (?: [[:<:]]bar .* [[:<:]]foo ) )''"
proof -
  have f: "get_re (TermNode ''foo'' False False None) = Inr ''[[:<:]]foo''" by code_simp
  have b: "get_re (TermNode ''bar'' False False None) = Inr ''[[:<:]]bar''" by code_simp
  from C7_and_regex_both_orders f b
  have "get_re (AndNode [Some (TermNode ''foo'' False False None),
                      Some (TermNode ''bar'' False False None)] None)
       = Inr (''(?: (?: '' @ ''[[:<:]]foo'' @ '' .* '' @ ''[[:<:]]bar'' @ '' ) | (?: ''
              @ ''[[:<:]]bar'' @ '' .* '' @ ''[[:<:]]foo'' @ '' ) )'')"
    by blast
  with f b show ?thesis by simp
qed

text \<open>
  C10 as stated fails: \<open>parse("foo )")\<close> returns no tree. The tokenizer raises \<open>TokenError\<close> at
  the end of the input, whose parentheses are not balanced, before the parser is called.
\<close>

theorem C10_counterexample:
  "parse ''foo )'' = Some (Inl (TokenError ''EOF in multi-line statement''))
   \<and> parse ''foo )'' \<noteq> parse ''foo''"
  by code_simp

text \<open>
  C10, amended: on the token list \<open>OPEN TERM CLOSE CLOSE\<close> the parser raises nothing and returns
  the single \<open>Term\<close> node that it returns for \<open>OPEN TERM CLOSE\<close> and that \<open>parse("foo")\<close> returns:
  the stray \<open>CLOSE\<close> ends the outer group. \<open>parse("foo )")\<close> itself does not reach the parser:
  the tokenizer produces the four lexemes and then raises \<open>TokenError\<close>.
\<close>

theorem C10_stray_close_token:
  "parse_token_list
     [Token ''('' T_OPEN, Token ''foo'' T_TERM, Token '')'' T_CLOSE, Token '')'' T_CLOSE]
     = Some (Inr (Some (TermNode ''foo'' False False None)))
   \<and> parse_token_list [Token ''('' T_OPEN, Token ''foo'' T_TERM, Token '')'' T_CLOSE]
     = Some (Inr (Some (TermNode ''foo'' False False None)))
   \<and> parse ''foo'' = Some (Inr (Some (TermNode ''foo'' False False None)))
   \<and> generate_tokens (normalize_query ''( foo ) )'')
     = ([''('', ''foo'', '')'', '')''], Some (TokenError ''EOF in multi-line statement''))
   \<and> parse ''foo )'' = Some (Inl (TokenError ''EOF in multi-line statement''))"
  by code_simp

text \<open>
  C9: let the tree \<open>t\<close> that \<open>parse\<close> returned (for a query, or the parser for a token list)
  be in the store \<open>h\<close> with its root at \<open>a\<close>. Then \<open>filter_tree\<close>, for every filter function
  and so for those of \<open>tsquery()\<close> and \<open>re()\<close>, returns (with the fuel of the tree or more), and
  the store after the call is the store before it with new objects after it: every object
  that was there has its class and every attribute as before, and \<open>t\<close> is still at \<open>a\<close>.
  When the call returns a node, it is the root of a tree all of whose objects, nodes and
  operand lists, are new.
\<close>

theorem C9_filter_tree_leaves_input:
  assumes "parse q = Some (Inr (Some t)) \<or> parse_token_list tokens = Some (Inr (Some t))"
    and "represents 0 h t a"
    and "filter_fuel t \<le> n"
  shows "\<exists>h' r. heap_filter_tree n hf a h = Some (h', r) \<and> extends h h' \<and> represents 0 h' t a
           \<and> (\<forall>b. r = Inr (Some b) \<longrightarrow> (\<exists>t'. represents (length h) h' t' b))"
proof -
  from assms(1) have u: "unfiltered t"
    using unfiltered_parse unfiltered_parse_token_list by blast
  from heap_filter_builds(1) [rule_format, OF assms(2) u assms(3), of hf]
  obtain h' r where r: "heap_filter_tree n hf a h = Some (h', r)" and e: "extends h h'"
    and f: "\<forall>b. r = Inr (Some b) \<longrightarrow> (\<exists>t'. represents (length h) h' t' b)"
    by blast
  from assms(2) e have "represents 0 h' t a" by (rule represents_extends)
  with r e f show ?thesis by blast
qed

lemma heap_filter_foo_and_not_bar:
  "heap_filter_tree 7 heap_re_filter 4
     [NodeCell (HTerm ''foo'' False False) (Some 4) None,
      NodeCell (HTerm ''bar'' False False) (Some 2) None,
      NodeCell (HNot 1) (Some 4) None,
      ListCell [Some 0, Some 2],
      NodeCell (HAnd 3) None None]
   = Some ([NodeCell (HTerm ''foo'' False False) (Some 4) None,
            NodeCell (HTerm ''bar'' False False) (Some 2) None,
            NodeCell (HNot 1) (Some 4) None,
            ListCell [Some 0, Some 2],
            NodeCell (HAnd 3) None None,
            NodeCell (HTerm ''foo'' False False) (Some 7) (Some Node_is_field_or_noop_or_not),
            ListCell [Some 5],
            NodeCell (HAnd 6) None (Some Node_is_field_or_noop_or_not)],
           Inr (Some 7))"
  by code_simp

theorem C9_filter_tree_leaves_input_witness:
  "parse ''foo and !bar'' =
     Some (Inr (Some (AndNode [Some (TermNode ''foo'' False False None),
                               Some (NotNode (TermNode ''bar'' False False None) None)] None)))
   \<and> represents 0
       [NodeCell (HTerm ''foo'' False False) (Some 4) None,
        NodeCell (HTerm ''bar'' False False) (Some 2) None,
        NodeCell (HNot 1) (Some 4) None,
        ListCell [Some 0, Some 2],
        NodeCell (HAnd 3) None None]
       (AndNode [Some (TermNode ''foo'' False False None),
                 Some (NotNode (TermNode ''bar'' False False None) None)] None) 4
   \<and> filter_fuel (AndNode [Some (TermNode ''foo'' False False None),
                 Some (NotNode (TermNode ''bar'' False False None) None)] None) \<le> 7
   \<and> heap_filter_tree 7 heap_re_filter 4
       [NodeCell (HTerm ''foo'' False False) (Some 4) None,
        NodeCell (HTerm ''bar'' False False) (Some 2) None,
        NodeCell (HNot 1) (Some 4) None,
        ListCell [Some 0, Some 2],
        NodeCell (HAnd 3) None None]
     = Some ([NodeCell (HTerm ''foo'' False False) (Some 4) None,
              NodeCell (HTerm ''bar'' False False) (Some 2) None,
              NodeCell (HNot 1) (Some 4) None,
              ListCell [Some 0, Some 2],
              NodeCell (HAnd 3) None None,
              NodeCell (HTerm ''foo'' False False) (Some 7) (Some Node_is_field_or_noop_or_not),
              ListCell [Some 5],
              NodeCell (HAnd 6) None (Some Node_is_field_or_noop_or_not)],
             Inr (Some 7))
   \<and> extends
       [NodeCell (HTerm ''foo'' False False) (Some 4) None,
        NodeCell (HTerm ''bar'' False False) (Some 2) None,
        NodeCell (HNot 1) (Some 4) None,
        ListCell [Some 0, Some 2],
        NodeCell (HAnd 3) None None]
       [NodeCell (HTerm ''foo'' False False) (Some 4) None,
        NodeCell (HTerm ''bar'' False False) (Some 2) None,
        NodeCell (HNot 1) (Some 4) None,
        ListCell [Some 0, Some 2],
        NodeCell (HAnd 3) None None,
        NodeCell (HTerm ''foo'' False False) (Some 7) (Some Node_is_field_or_noop_or_not),
        ListCell [Some 5],
        NodeCell (HAnd 6) None (Some Node_is_field_or_noop_or_not)]
   \<and> (\<exists>t'. represents 5
       [NodeCell (HTerm ''foo'' False False) (Some 4) None,
        NodeCell (HTerm ''bar'' False False) (Some 2) None,
        NodeCell (HNot 1) (Some 4) None,
        ListCell [Some 0, Some 2],
        NodeCell (HAnd 3) None None,
        NodeCell (HTerm ''foo'' False False) (Some 7) (Some Node_is_field_or_noop_or_not),
        ListCell [Some 5],
        NodeCell (HAnd 6) None (Some Node_is_field_or_noop_or_not)] t' 7)"
proof -
  let ?t = "AndNode [Some (TermNode ''foo'' False False None),
                 Some (NotNode (TermNode ''bar'' False False None) None)] None"
  let ?h = "[NodeCell (HTerm ''foo'' False False) (Some 4) None,
        NodeCell (HTerm ''bar'' False False) (Some 2) None,
        NodeCell (HNot 1) (Some 4) None,
        ListCell [Some 0, Some 2],
        NodeCell (HAnd 3) None None]"
  let ?h' = "[NodeCell (HTerm ''foo'' False False) (Some 4) None,
        NodeCell (HTerm ''bar'' False False) (Some 2) None,
        NodeCell (HNot 1) (Some 4) None,
        ListCell [Some 0, Some 2],
        NodeCell (HAnd 3) None None,
        NodeCell (HTerm ''foo'' False False) (Some 7) (Some Node_is_field_or_noop_or_not),
        ListCell [Some 5],
        NodeCell (HAnd 6) None (Some Node_is_field_or_noop_or_not)]"
  have p: "parse ''foo and !bar'' = Some (Inr (Some ?t))
           \<or> parse_token_list [] = Some (Inr (Some ?t))"
    using parse_foo_and_not_bar by simp
  have r: "represents 0 ?h ?t 4" by (simp add: lookup_def)
  have f: "filter_fuel ?t \<le> 7" by simp
  from C9_filter_tree_leaves_input [OF p r f, of heap_re_filter]
  obtain h' res where "heap_filter_tree 7 heap_re_filter 4 ?h = Some (h', res)"
    and e: "extends ?h h'"
    and n: "\<forall>b. res = Inr (Some b) \<longrightarrow> (\<exists>t'. represents (length ?h) h' t' b)"
    by blast
  with heap_filter_foo_and_not_bar
  have e': "extends ?h ?h'" and n': "\<exists>t'. represents (length ?h) ?h' t' 7"
    by simp_all
  have len: "length ?h = 5" by simp
  from n' have n5: "\<exists>t'. represents 5 ?h' t' 7" unfolding len .
  from parse_foo_and_not_bar r f heap_filter_foo_and_not_bar e' n5 show ?thesis
    by (intro conjI)
qed

end
